theory Spec2Isabelle
  imports Main
begin

section \<open>Symbol handles and metadata values\<close>

text \<open>
  The class \<open>StaticSymbol\<close> (static_symbol.ts): the declaring file, the declared name and
  the member path of a symbol.
\<close>

record StaticSymbol =
  filePath :: string
  name :: string
  members :: "string list"

text \<open>
  Modelled from the spec: the symbol table \<open>StaticSymbolCache\<close> (static_symbol.ts) is not
  among the sources. The spec (sections 3 and 4.1) says that interning is pure and total
  and that two handles with equal (file, name, member path) triples are the same entity,
  so a handle is the triple itself and object identity of handles is equality of triples.
  The optional parameter \<open>members\<close> of the source is the empty list when it is left out.
\<close>

definition getStaticSymbol :: "string \<Rightarrow> string \<Rightarrow> string list \<Rightarrow> StaticSymbol" where
  "getStaticSymbol declarationFile symbolName ms =
     \<lparr>filePath = declarationFile, name = symbolName, members = ms\<rparr>"

text \<open>
  Metadata is typed \<open>any\<close> in the source and inspected at run time. A value is what a JSON
  document holds (numbers are integers here), \<open>undefined\<close>, or a \<open>StaticSymbol\<close>
  instance. A string map is the list of its own entries in enumeration order; an array
  and a string map are trees: no two positions of a document share an object.
\<close>

datatype val =
    VUndef
  | VNull
  | VBool bool
  | VNum int
  | VStr string
  | VArr "val list"
  | VMap "(string \<times> val) list"
  | VSym StaticSymbol

text \<open>
  What the source can raise: \<open>new Error(message)\<close>, a \<open>TypeError\<close> of the language, and
  \<open>IllTyped\<close>, which is not an exception of the source: it marks the places where a
  value that is not a string would be passed to a parameter that the callee declares as
  \<open>string\<close> (the name handed to \<open>getStaticSymbol\<close>, the module specifier handed to the
  host). The model stops there, and no theorem below relies on what happens then.

  \<open>Inherited\<close> is not an exception of the source either. It marks the place where a
  member path reads a property that the value does not own but finds in one of its
  prototypes (\<open>constructor\<close>, \<open>toString\<close> and the like). The source goes on with what the
  run time holds there, a function or an object that is no metadata value; the model
  stops, and the theorems about the value a member path yields are stated for paths that
  read no such property.
\<close>

datatype error = Error string | TypeError string | IllTyped string | Inherited string

text \<open>\<open>ResolvedStaticSymbol\<close>: a handle with its metadata.\<close>

record ResolvedStaticSymbol =
  symbol :: StaticSymbol
  metadata :: val

subsection \<open>The operations of the language the source uses on values\<close>

text \<open>The truth value a condition gives a value (\<open>if (v)\<close>, \<open>!v\<close>, \<open>v || w\<close>).\<close>

fun truthy :: "val \<Rightarrow> bool" where
  "truthy VUndef = False"
| "truthy VNull = False"
| "truthy (VBool b) = b"
| "truthy (VNum n) = (n \<noteq> 0)"
| "truthy (VStr s) = (s \<noteq> [])"
| "truthy (VArr xs) = True"
| "truthy (VMap m) = True"
| "truthy (VSym y) = True"

text \<open>\<open>map[key]\<close> on a string map: the entry, or \<open>undefined\<close>.\<close>

definition getProp :: "(string \<times> val) list \<Rightarrow> string \<Rightarrow> val" where
  "getProp m k = (case map_of m k of None \<Rightarrow> VUndef | Some v \<Rightarrow> v)"

text \<open>
  \<open>===\<close> as \<open>indexOf\<close> applies it: primitives by value, handles by identity (their
  triple), arrays and string maps by identity, which two positions of a tree never share.
\<close>

fun strictEquals :: "val \<Rightarrow> val \<Rightarrow> bool" where
  "strictEquals VUndef VUndef = True"
| "strictEquals VNull VNull = True"
| "strictEquals (VBool a) (VBool b) = (a = b)"
| "strictEquals (VNum a) (VNum b) = (a = b)"
| "strictEquals (VStr a) (VStr b) = (a = b)"
| "strictEquals (VSym a) (VSym b) = (a = b)"
| "strictEquals a b = False"

text \<open>\<open>arr.indexOf(v)\<close>: the first index whose element is \<open>===\<close> to \<open>v\<close>, or \<open>-1\<close>.\<close>

fun indexOfFrom :: "int \<Rightarrow> val list \<Rightarrow> val \<Rightarrow> int" where
  "indexOfFrom i [] v = -1"
| "indexOfFrom i (x # xs) v = (if strictEquals x v then i else indexOfFrom (i + 1) xs v)"

definition indexOf :: "val list \<Rightarrow> val \<Rightarrow> int" where
  "indexOf xs v = indexOfFrom 0 xs v"

text \<open>
  The arguments \<open>...(p || [])\<close> spreads: nothing for a falsy \<open>p\<close>, the elements of an array,
  the characters of a string, and a \<open>TypeError\<close> for any other value, which is not iterable.
\<close>

fun spreadOrEmpty :: "val \<Rightarrow> error + val list" where
  "spreadOrEmpty (VArr xs) = Inr xs"
| "spreadOrEmpty (VStr s) = Inr (map (\<lambda>c. VStr [c]) s)"
| "spreadOrEmpty v =
     (if truthy v then Inl (TypeError ''parameters is not iterable'') else Inr [])"

section \<open>The collaborators and the state of a resolver\<close>

text \<open>
  A module metadata document as the host hands it over: its version, its declarations
  (\<open>metadata\<close>, when present) and its export directives (\<open>exports\<close>, when present). An
  export directive names a module (\<open>from\<close>) and, when it is explicit, lists what it
  re-exports (\<open>export\<close>): a name, or a name with the alias it is exported under.
\<close>

datatype exportSymbol = ExportName string | ExportAs string string

record moduleExport =
  exportList :: "exportSymbol list option"
  fromModule :: string

record moduleMetadata =
  version :: int
  declarations :: "(string \<times> val) list option"
  exports :: "moduleExport list option"

text \<open>
  A call of the host returns or throws. Of a thrown value only what \<open>new e\<close> does with it
  matters to the source: an ordinary thrown value (an \<open>Error\<close> instance) is not a
  constructor, and a thrown constructor yields an object.
\<close>

datatype thrown = NotAConstructor | Constructs error

datatype 'a hostCall = Returns 'a | Throws thrown

record StaticSymbolResolverHost =
  getMetadataFor :: "string \<Rightarrow> moduleMetadata list option"
  moduleNameToFileName :: "string \<Rightarrow> string \<Rightarrow> string option hostCall"

record SummaryResolver =
  resolveSummary :: "StaticSymbol \<Rightarrow> val option"
  summarySymbolsOf :: "string \<Rightarrow> StaticSymbol list"

text \<open>
  The constructor's arguments. Of the optional \<open>errorRecorder\<close> the model keeps whether
  it is there; what it is called with is appended to \<open>recorded\<close> in the state.
\<close>

record resolver =
  host :: StaticSymbolResolverHost
  summaryResolver :: SummaryResolver
  errorRecorder :: bool

record resolverState =
  metadataCache :: "string \<rightharpoonup> moduleMetadata"
  resolvedSymbols :: "(StaticSymbol \<times> ResolvedStaticSymbol) list"
  resolvedFilePaths :: "string set"
  recorded :: "(error \<times> string option) list"
  console :: "string list"

definition newResolver :: resolverState where
  "newResolver = \<lparr>metadataCache = Map.empty, resolvedSymbols = [],
     resolvedFilePaths = {}, recorded = [], console = []\<rparr>"

definition SUPPORTED_SCHEMA_VERSION :: int where
  "SUPPORTED_SCHEMA_VERSION = 3"

section \<open>Reporting errors and resolving modules\<close>

text \<open>
  \<open>reportError(error, context, path)\<close>: the recorder is called with the error and
  \<open>(context && context.filePath) || path\<close>; without a recorder the error is thrown.
\<close>

definition reportError ::
  "resolver \<Rightarrow> error \<Rightarrow> StaticSymbol option \<Rightarrow> string option \<Rightarrow> resolverState
     \<Rightarrow> (error + unit) \<times> resolverState" where
  "reportError r e context path s =
     (if errorRecorder r then
        (Inr (),
         s\<lparr>recorded := recorded s @
           [(e, case context of
                  None \<Rightarrow> path
                | Some c \<Rightarrow> if filePath c \<noteq> [] then Some (filePath c) else path)]\<rparr>)
      else (Inl e, s))"

text \<open>
  \<open>resolveModule(module, containingFile)\<close>: what the host returns; when the host throws
  \<open>e\<close>, a line on the console, then \<open>reportError(new e, null, containingFile)\<close>, and the
  result is \<open>undefined\<close>. \<open>new e\<close> is a \<open>TypeError\<close> unless \<open>e\<close> is a constructor.
\<close>

definition resolveModule ::
  "resolver \<Rightarrow> string \<Rightarrow> string \<Rightarrow> resolverState \<Rightarrow> (error + string option) \<times> resolverState" where
  "resolveModule r module containingFile s =
     (case moduleNameToFileName (host r) module containingFile of
        Returns p \<Rightarrow> (Inr p, s)
      | Throws e \<Rightarrow>
          (let s1 = s\<lparr>console := console s @
                 [''Could not resolve module '' @ [CHR 0x27] @ module @ [CHR 0x27] @
                  '' relative to file '' @ containingFile]\<rparr>
           in case e of
                NotAConstructor \<Rightarrow> (Inl (TypeError ''e is not a constructor''), s1)
              | Constructs err \<Rightarrow>
                  (case reportError r err None (Some containingFile) s1 of
                     (Inl x, s2) \<Rightarrow> (Inl x, s2)
                   | (Inr u, s2) \<Rightarrow> (Inr None, s2))))"

text \<open>\<open>if (filePath)\<close> on a path that may be \<open>null\<close> or \<open>undefined\<close>.\<close>

definition isPath :: "string option \<Rightarrow> bool" where
  "isPath p = (case p of None \<Rightarrow> False | Some f \<Rightarrow> f \<noteq> [])"

section \<open>The reference transformer\<close>

text \<open>
  Modelled from the spec: \<open>visitValue\<close> and the class \<open>ValueTransformer\<close> (util.ts) are not
  among the sources. The spec (section 4.3) says that mapping nodes are inspected for
  their symbolic kind and that all other mapping, sequence and primitive nodes are
  rebuilt recursively with no special handling: \<open>visitValue\<close> sends an array to
  \<open>visitArray\<close>, a string map to \<open>visitStringMap\<close> and returns every other value as it
  is; \<open>visitArray\<close> visits the elements in order; \<open>superVisitStringMap\<close>
  (\<open>ValueTransformer.visitStringMap\<close>, the \<open>super\<close> call of the source) visits the
  entries in order and builds a map of the results under the same keys.

  \<open>visitStringMap\<close> is the override of the class \<open>ReferenceTransformer\<close> inside
  \<open>createResolvedSymbol\<close>, and \<open>visitReference\<close> is its branch for a reference node,
  where the last test \<open>if (filePath)\<close> of the source is made at the end of each of the
  two branches on \<open>module\<close>; \<open>sourceFile\<close> is \<open>sourceSymbol.filePath\<close>. The array \<open>functionParams\<close> is shared by
  the whole visit and changed in place, so it is passed in and handed back like the
  resolver's state.
\<close>

definition visitReference ::
  "resolver \<Rightarrow> string \<Rightarrow> (string \<times> val) list \<Rightarrow> val list \<Rightarrow> resolverState
     \<Rightarrow> (error + val) \<times> val list \<times> resolverState" where
  "visitReference r sourceFile m functionParams s =
        (let module = getProp m ''module'';
             nm = getProp m ''name'' in
         if \<not> truthy nm then (Inr VNull, functionParams, s)
         else if truthy module then
           (case module of
              VStr mo \<Rightarrow>
                (case resolveModule r mo sourceFile s of
                   (Inl e, s') \<Rightarrow> (Inl e, functionParams, s')
                 | (Inr p, s') \<Rightarrow>
                     (if \<not> isPath p then
                        (Inr (VMap [(''__symbolic'', VStr ''error''),
                           (''message'', VStr (''Could not resolve '' @ mo @
                              '' relative to '' @ sourceFile @ ''.''))]),
                         functionParams, s')
                      else
                        (case nm of
                           VStr n \<Rightarrow>
                             (Inr (VSym (getStaticSymbol (the p) n [])), functionParams, s')
                         | _ \<Rightarrow> (Inl (IllTyped ''name''), functionParams, s'))))
            | _ \<Rightarrow> (Inl (IllTyped ''module''), functionParams, s))
         else
           (let isFunctionParam = (indexOf functionParams nm \<ge> 0);
                p = (if \<not> isFunctionParam then Some sourceFile else None)
            in if isPath p then
                 (case nm of
                    VStr n \<Rightarrow> (Inr (VSym (getStaticSymbol (the p) n [])), functionParams, s)
                  | _ \<Rightarrow> (Inl (IllTyped ''name''), functionParams, s))
               else
                 (Inr (VMap [(''__symbolic'', VStr ''reference''), (''name'', nm)]),
                  functionParams, s)))"

function visitValue ::
    "resolver \<Rightarrow> string \<Rightarrow> val \<Rightarrow> val list \<Rightarrow> resolverState
       \<Rightarrow> (error + val) \<times> val list \<times> resolverState"
  and visitArray ::
    "resolver \<Rightarrow> string \<Rightarrow> val list \<Rightarrow> val list \<Rightarrow> resolverState
       \<Rightarrow> (error + val list) \<times> val list \<times> resolverState"
  and visitStringMap ::
    "resolver \<Rightarrow> string \<Rightarrow> (string \<times> val) list \<Rightarrow> val list \<Rightarrow> resolverState
       \<Rightarrow> (error + val) \<times> val list \<times> resolverState"
  and superVisitStringMap ::
    "resolver \<Rightarrow> string \<Rightarrow> (string \<times> val) list \<Rightarrow> val list \<Rightarrow> resolverState
       \<Rightarrow> (error + (string \<times> val) list) \<times> val list \<times> resolverState"
where
  "visitValue r sourceFile (VArr arr) functionParams s =
     (case visitArray r sourceFile arr functionParams s of
        (Inl e, fp, s') \<Rightarrow> (Inl e, fp, s')
      | (Inr arr', fp, s') \<Rightarrow> (Inr (VArr arr'), fp, s'))"
| "visitValue r sourceFile (VMap m) functionParams s =
     visitStringMap r sourceFile m functionParams s"
| "visitValue r sourceFile VUndef functionParams s = (Inr VUndef, functionParams, s)"
| "visitValue r sourceFile VNull functionParams s = (Inr VNull, functionParams, s)"
| "visitValue r sourceFile (VBool b) functionParams s = (Inr (VBool b), functionParams, s)"
| "visitValue r sourceFile (VNum n) functionParams s = (Inr (VNum n), functionParams, s)"
| "visitValue r sourceFile (VStr t) functionParams s = (Inr (VStr t), functionParams, s)"
| "visitValue r sourceFile (VSym y) functionParams s = (Inr (VSym y), functionParams, s)"
| "visitArray r sourceFile [] functionParams s = (Inr [], functionParams, s)"
| "visitArray r sourceFile (v # vs) functionParams s =
     (case visitValue r sourceFile v functionParams s of
        (Inl e, fp, s') \<Rightarrow> (Inl e, fp, s')
      | (Inr v', fp, s') \<Rightarrow>
          (case visitArray r sourceFile vs fp s' of
             (Inl e, fp', s'') \<Rightarrow> (Inl e, fp', s'')
           | (Inr vs', fp', s'') \<Rightarrow> (Inr (v' # vs'), fp', s'')))"
| "visitStringMap r sourceFile m functionParams s =
     (let symbolic = getProp m ''__symbolic'' in
      if symbolic = VStr ''function'' then
        (let oldLen = length functionParams in
         case spreadOrEmpty (getProp m ''parameters'') of
           Inl e \<Rightarrow> (Inl e, functionParams, s)
         | Inr ps \<Rightarrow>
             (case superVisitStringMap r sourceFile m (functionParams @ ps) s of
                (Inl e, fp, s') \<Rightarrow> (Inl e, fp, s')
              | (Inr result, fp, s') \<Rightarrow> (Inr (VMap result), take oldLen fp, s')))
      else if symbolic = VStr ''reference'' then
        visitReference r sourceFile m functionParams s
      else
        (case superVisitStringMap r sourceFile m functionParams s of
           (Inl e, fp, s') \<Rightarrow> (Inl e, fp, s')
         | (Inr result, fp, s') \<Rightarrow> (Inr (VMap result), fp, s')))"
| "superVisitStringMap r sourceFile [] functionParams s = (Inr [], functionParams, s)"
| "superVisitStringMap r sourceFile ((k, v) # kvs) functionParams s =
     (case visitValue r sourceFile v functionParams s of
        (Inl e, fp, s') \<Rightarrow> (Inl e, fp, s')
      | (Inr v', fp, s') \<Rightarrow>
          (case superVisitStringMap r sourceFile kvs fp s' of
             (Inl e, fp', s'') \<Rightarrow> (Inl e, fp', s'')
           | (Inr kvs', fp', s'') \<Rightarrow> (Inr ((k, v') # kvs'), fp', s'')))"

  by pat_completeness auto

termination
  apply (relation "measure (\<lambda>x. case x of
      Inl (Inl (r, f, v, fp, s)) \<Rightarrow> 2 * size v
    | Inl (Inr (r, f, vs, fp, s)) \<Rightarrow> 2 * size_list size vs
    | Inr (Inl (r, f, m, fp, s)) \<Rightarrow> 2 * size_list (size_prod (\<lambda>_. 0) size) m + 1
    | Inr (Inr (r, f, m, fp, s)) \<Rightarrow> 2 * size_list (size_prod (\<lambda>_. 0) size) m)")
  apply simp_all
  done


text \<open>
  \<open>createResolvedSymbol(sourceSymbol, metadata)\<close>: the metadata transformed, starting
  from an empty \<open>functionParams\<close>, which is dropped afterwards.
\<close>

definition createResolvedSymbol ::
  "resolver \<Rightarrow> StaticSymbol \<Rightarrow> val \<Rightarrow> resolverState
     \<Rightarrow> (error + ResolvedStaticSymbol) \<times> resolverState" where
  "createResolvedSymbol r sourceSymbol md s =
     (case visitValue r (filePath sourceSymbol) md [] s of
        (Inl e, fp, s') \<Rightarrow> (Inl e, s')
      | (Inr transformedMeta, fp, s') \<Rightarrow>
          (Inr \<lparr>symbol = sourceSymbol, metadata = transformedMeta\<rparr>, s'))"

section \<open>The metadata store\<close>

text \<open>The decimal numeral of a number, as a template string prints it.\<close>

fun natToString :: "nat \<Rightarrow> string" where
  "natToString n =
     (if n < 10 then [char_of (48 + n)]
      else natToString (n div 10) @ [char_of (48 + n mod 10)])"

declare natToString.simps [simp del]

definition intToString :: "int \<Rightarrow> string" where
  "intToString i = (if i < 0 then ''-'' @ natToString (nat (- i)) else natToString (nat i))"

text \<open>
  The loop \<open>moduleMetadatas.forEach\<close> of \<open>getModuleMetadata\<close>, with its two variables
  \<open>maxVersion\<close> and \<open>moduleMetadata\<close>.
\<close>

fun maxVersionLoop ::
  "moduleMetadata list \<Rightarrow> int \<Rightarrow> moduleMetadata option \<Rightarrow> moduleMetadata option" where
  "maxVersionLoop [] maxVersion moduleMetadata = moduleMetadata"
| "maxVersionLoop (md # mds) maxVersion moduleMetadata =
     (if version md > maxVersion then maxVersionLoop mds (version md) (Some md)
      else maxVersionLoop mds maxVersion moduleMetadata)"

definition errorMessage :: "string \<Rightarrow> int \<Rightarrow> string" where
  "errorMessage module v =
     (if v = 2 then
        ''Unsupported metadata version '' @ intToString v @ '' for module '' @ module @
        ''. This module should be compiled with a newer version of ngc''
      else
        ''Metadata version mismatch for module '' @ module @ '', found version '' @
        intToString v @ '', expected '' @ intToString SUPPORTED_SCHEMA_VERSION)"

text \<open>
  \<open>getModuleMetadata\<close> on a miss of the cache, up to the version check: the documents of
  the host, the first one with the highest version above \<open>-1\<close> kept, and the empty document
  at the supported version when none is kept.
\<close>

definition loadModuleMetadata :: "resolver \<Rightarrow> string \<Rightarrow> moduleMetadata" where
  "loadModuleMetadata r module =
     (let moduleMetadatas = getMetadataFor (host r) module;
          selected = (case moduleMetadatas of
                        None \<Rightarrow> None
                      | Some mds \<Rightarrow> maxVersionLoop mds (- 1) None)
      in case selected of
           None \<Rightarrow> \<lparr>version = SUPPORTED_SCHEMA_VERSION, declarations = Some [],
                     exports = None\<rparr>
         | Some md \<Rightarrow> md)"

definition getModuleMetadata ::
  "resolver \<Rightarrow> string \<Rightarrow> resolverState \<Rightarrow> (error + moduleMetadata) \<times> resolverState" where
  "getModuleMetadata r module s =
     (case metadataCache s module of
        Some moduleMetadata \<Rightarrow> (Inr moduleMetadata, s)
      | None \<Rightarrow>
          (let moduleMetadata = loadModuleMetadata r module in
           if version moduleMetadata \<noteq> SUPPORTED_SCHEMA_VERSION then
             (case reportError r (Error (errorMessage module (version moduleMetadata)))
                     None None s of
                (Inl e, s1) \<Rightarrow> (Inl e, s1)
              | (Inr u, s1) \<Rightarrow>
                  (Inr moduleMetadata,
                   s1\<lparr>metadataCache := (metadataCache s1)(module \<mapsto> moduleMetadata)\<rparr>))
           else
             (Inr moduleMetadata,
              s\<lparr>metadataCache := (metadataCache s)(module \<mapsto> moduleMetadata)\<rparr>)))"

section \<open>The export walker\<close>

text \<open>\<open>Map.set\<close>: the value of a key is replaced where the key stands, a new key goes last.\<close>

fun mapSet :: "'k \<Rightarrow> 'v \<Rightarrow> ('k \<times> 'v) list \<Rightarrow> ('k \<times> 'v) list" where
  "mapSet k v [] = [(k, v)]"
| "mapSet k v ((k', v') # kvs) = (if k' = k then (k, v) # kvs else (k', v') # mapSet k v kvs)"

text \<open>\<open>Set.add\<close> and \<open>new Set(list)\<close>, a set kept in insertion order.\<close>

definition setAdd :: "'a \<Rightarrow> 'a list \<Rightarrow> 'a list" where
  "setAdd x xs = (if x \<in> set xs then xs else xs @ [x])"

definition newSet :: "'a list \<Rightarrow> 'a list" where
  "newSet xs = fold setAdd xs []"

text \<open>
  The loop over \<open>Object.keys(metadata['metadata'])\<close>: each declaration transformed and
  pushed on the local list \<open>resolvedSymbols\<close>.
\<close>

fun declarationsLoop ::
  "resolver \<Rightarrow> string \<Rightarrow> (string \<times> val) list \<Rightarrow> string list \<Rightarrow> ResolvedStaticSymbol list
     \<Rightarrow> resolverState \<Rightarrow> (error + ResolvedStaticSymbol list) \<times> resolverState" where
  "declarationsLoop r file decls [] resolved s = (Inr resolved, s)"
| "declarationsLoop r file decls (symbolName # rest) resolved s =
     (let symbolMeta = getProp decls symbolName in
      case createResolvedSymbol r (getStaticSymbol file symbolName []) symbolMeta s of
        (Inl e, s') \<Rightarrow> (Inl e, s')
      | (Inr resolvedSymbol, s') \<Rightarrow>
          declarationsLoop r file decls rest (resolved @ [resolvedSymbol]) s')"

text \<open>
  The loop \<open>moduleExport.export.forEach\<close> over the symbols of an explicit directive; the
  module is resolved anew for each symbol.
\<close>

fun exportLoop ::
  "resolver \<Rightarrow> string \<Rightarrow> string \<Rightarrow> exportSymbol list \<Rightarrow> ResolvedStaticSymbol list
     \<Rightarrow> resolverState \<Rightarrow> (error + ResolvedStaticSymbol list) \<times> resolverState" where
  "exportLoop r file fromM [] resolved s = (Inr resolved, s)"
| "exportLoop r file fromM (exportSymbol # rest) resolved s =
     (let symbolName = (case exportSymbol of ExportName n \<Rightarrow> n | ExportAs n a \<Rightarrow> a);
          symName = (case exportSymbol of ExportName n \<Rightarrow> symbolName | ExportAs n a \<Rightarrow> n)
      in case resolveModule r fromM file s of
           (Inl e, s') \<Rightarrow> (Inl e, s')
         | (Inr resolvedModule, s') \<Rightarrow>
             (if isPath resolvedModule then
                (let targetSymbol = getStaticSymbol (the resolvedModule) symName [];
                     sourceSymbol = getStaticSymbol file symbolName []
                 in exportLoop r file fromM rest
                      (resolved @ [\<lparr>symbol = sourceSymbol, metadata = VSym targetSymbol\<rparr>]) s')
              else exportLoop r file fromM rest resolved s'))"

text \<open>The aliases a wildcard directive pushes for the symbols of the module it names.\<close>

definition wildcardAliases :: "string \<Rightarrow> StaticSymbol list \<Rightarrow> ResolvedStaticSymbol list" where
  "wildcardAliases file nestedExports =
     map (\<lambda>targetSymbol.
            \<lparr>symbol = getStaticSymbol file (name targetSymbol) [],
             metadata = VSym targetSymbol\<rparr>) nestedExports"

text \<open>The last loop of \<open>_createSymbolsOf\<close>: every local entry set in the cache.\<close>

definition registerAll ::
  "ResolvedStaticSymbol list \<Rightarrow> resolverState \<Rightarrow> resolverState" where
  "registerAll resolved s =
     s\<lparr>resolvedSymbols :=
         fold (\<lambda>resolvedSymbol. mapSet (symbol resolvedSymbol) resolvedSymbol) resolved
           (resolvedSymbols s)\<rparr>"

text \<open>The handles \<open>getSymbolsOf\<close> collects after the walker has run.\<close>

definition collectSymbols :: "resolver \<Rightarrow> string \<Rightarrow> resolverState \<Rightarrow> StaticSymbol list" where
  "collectSymbols r file s =
     fold (\<lambda>(k, resolvedSymbol) symbols.
             if filePath (symbol resolvedSymbol) = file
             then setAdd (symbol resolvedSymbol) symbols else symbols)
       (resolvedSymbols s) (newSet (summarySymbolsOf (summaryResolver r) file))"

text \<open>
  \<open>_createSymbolsOf\<close> and \<open>getSymbolsOf\<close>, which call each other through the wildcard
  directives, and the loop \<open>for (const moduleExport of metadata['exports'])\<close> between
  them. Nothing in the source bounds how deep these calls nest, so the functions take the
  depth they may nest to: each entry into \<open>_createSymbolsOf\<close> uses one level, and the
  result is \<open>None\<close> when the levels do not suffice. A result \<open>Some\<close> is what the source
  returns (\<open>Inr\<close>) or raises (\<open>Inl\<close>), with the state it leaves.
\<close>

function createSymbolsOf ::
    "resolver \<Rightarrow> nat \<Rightarrow> string \<Rightarrow> resolverState \<Rightarrow> ((error + unit) \<times> resolverState) option"
  and moduleExportsLoop ::
    "resolver \<Rightarrow> nat \<Rightarrow> string \<Rightarrow> moduleExport list \<Rightarrow> ResolvedStaticSymbol list
       \<Rightarrow> resolverState \<Rightarrow> ((error + ResolvedStaticSymbol list) \<times> resolverState) option"
  and getSymbolsOf ::
    "resolver \<Rightarrow> nat \<Rightarrow> string \<Rightarrow> resolverState
       \<Rightarrow> ((error + StaticSymbol list) \<times> resolverState) option"
where
  "createSymbolsOf r 0 file s = None"
| "createSymbolsOf r (Suc n) file s =
     (if file \<in> resolvedFilePaths s then Some (Inr (), s)
      else
        (let s1 = s\<lparr>resolvedFilePaths := insert file (resolvedFilePaths s)\<rparr> in
         case getModuleMetadata r file s1 of
           (Inl e, s2) \<Rightarrow> Some (Inl e, s2)
         | (Inr md, s2) \<Rightarrow>
             (case (case declarations md of
                      None \<Rightarrow> (Inr [], s2)
                    | Some decls \<Rightarrow> declarationsLoop r file decls (map fst decls) [] s2) of
                (Inl e, s3) \<Rightarrow> Some (Inl e, s3)
              | (Inr resolved, s3) \<Rightarrow>
                  (case (case exports md of
                           None \<Rightarrow> Some (Inr resolved, s3)
                         | Some moduleExports \<Rightarrow>
                             moduleExportsLoop r n file moduleExports resolved s3) of
                     None \<Rightarrow> None
                   | Some (Inl e, s4) \<Rightarrow> Some (Inl e, s4)
                   | Some (Inr resolved', s4) \<Rightarrow> Some (Inr (), registerAll resolved' s4)))))"
| "moduleExportsLoop r n file [] resolved s = Some (Inr resolved, s)"
| "moduleExportsLoop r n file (moduleExport # rest) resolved s =
     (case exportList moduleExport of
        Some exportSymbols \<Rightarrow>
          (case exportLoop r file (fromModule moduleExport) exportSymbols resolved s of
             (Inl e, s') \<Rightarrow> Some (Inl e, s')
           | (Inr resolved', s') \<Rightarrow> moduleExportsLoop r n file rest resolved' s')
      | None \<Rightarrow>
          (case resolveModule r (fromModule moduleExport) file s of
             (Inl e, s') \<Rightarrow> Some (Inl e, s')
           | (Inr resolvedModule, s') \<Rightarrow>
               (if isPath resolvedModule then
                  (case getSymbolsOf r n (the resolvedModule) s' of
                     None \<Rightarrow> None
                   | Some (Inl e, s'') \<Rightarrow> Some (Inl e, s'')
                   | Some (Inr nestedExports, s'') \<Rightarrow>
                       moduleExportsLoop r n file rest
                         (resolved @ wildcardAliases file nestedExports) s'')
                else moduleExportsLoop r n file rest resolved s')))"
| "getSymbolsOf r n file s =
     (case createSymbolsOf r n file s of
        None \<Rightarrow> None
      | Some (Inl e, s') \<Rightarrow> Some (Inl e, s')
      | Some (Inr u, s') \<Rightarrow> Some (Inr (collectSymbols r file s'), s'))"
  by pat_completeness auto

termination
proof (relation "inv_image (less_than <*lex*> less_than) (\<lambda>x. case x of
      Inl (r, n, file, s) \<Rightarrow> (n, 0)
    | Inr (Inl (r, n, file, es, resolved, s)) \<Rightarrow> (n, 2 + length es)
    | Inr (Inr (r, n, file, s)) \<Rightarrow> (n, 1))")
  show "wf (inv_image (less_than <*lex*> less_than) (\<lambda>x. case x of
      Inl (r, n, file, s) \<Rightarrow> (n, 0::nat)
    | Inr (Inl (r, n, file, es, resolved, s)) \<Rightarrow> (n, 2 + length es)
    | Inr (Inr (r, n, file, s)) \<Rightarrow> (n::nat, 1)))"
    by (intro wf_inv_image wf_lex_prod wf_less_than)
qed simp_all

section \<open>Resolving a symbol\<close>

text \<open>
  The properties a value owns: a string map its entries, an array its elements and its
  length, a string its characters and its length, a handle its three fields; a number and
  a boolean own none. \<open>ownProperty\<close> is the property a value owns under a key, if it owns
  one.
\<close>

definition isDigit :: "char \<Rightarrow> bool" where
  "isDigit c = (48 \<le> (of_char c :: nat) \<and> (of_char c :: nat) \<le> 57)"

text \<open>An array index: the decimal numeral of a number, without leading zeros.\<close>

definition arrayIndex :: "string \<Rightarrow> nat option" where
  "arrayIndex k =
     (if k \<noteq> [] \<and> list_all isDigit k \<and> (k = ''0'' \<or> hd k \<noteq> CHR ''0'')
      then Some (foldl (\<lambda>acc c. 10 * acc + (of_char c - 48)) 0 k) else None)"

fun ownProperty :: "val \<Rightarrow> string \<Rightarrow> val option" where
  "ownProperty (VMap m) k = map_of m k"
| "ownProperty (VArr xs) k =
     (if k = ''length'' then Some (VNum (int (length xs)))
      else case arrayIndex k of
             None \<Rightarrow> None
           | Some i \<Rightarrow> if i < length xs then Some (xs ! i) else None)"
| "ownProperty (VStr t) k =
     (if k = ''length'' then Some (VNum (int (length t)))
      else case arrayIndex k of
             None \<Rightarrow> None
           | Some i \<Rightarrow> if i < length t then Some (VStr [t ! i]) else None)"
| "ownProperty (VSym y) k =
     (if k = ''filePath'' then Some (VStr (filePath y))
      else if k = ''name'' then Some (VStr (name y))
      else if k = ''members'' then Some (VArr (map VStr (members y)))
      else None)"
| "ownProperty v k = None"

text \<open>
  A property that a value does not own is looked up in its prototypes: every object finds
  \<open>constructor\<close> and \<open>toString\<close> in \<open>Object.prototype\<close>, an array finds its methods in
  \<open>Array.prototype\<close>. What the prototypes hold belongs to the run time and not to the
  source, so it is a parameter: for \<open>pr :: prototypes\<close>, \<open>pr v k\<close> says that a prototype
  of the value \<open>v\<close> has a property \<open>k\<close>.
\<close>

type_synonym prototypes = "val \<Rightarrow> string \<Rightarrow> bool"

text \<open>
  \<open>value.k\<close> for a name \<open>k\<close> that the source writes out (\<open>__symbolic\<close>, \<open>statics\<close>): the
  property the value owns, or \<open>undefined\<close>. As in the reference transformer, these names
  are taken to be no prototype's.
\<close>

definition getField :: "val \<Rightarrow> string \<Rightarrow> val" where
  "getField v k = (case ownProperty v k of None \<Rightarrow> VUndef | Some x \<Rightarrow> x)"

text \<open>
  \<open>value[key]\<close> for a key that a member path supplies: the property the value owns;
  \<open>undefined\<close> when neither the value nor one of its prototypes has the key; and, when a
  prototype has it, what the run time holds there, where the model stops with
  \<open>Inherited\<close>. Reading a property of \<open>undefined\<close> or \<open>null\<close> raises a \<open>TypeError\<close>; the
  source indexes truthy values only.
\<close>

definition getIndex :: "prototypes \<Rightarrow> val \<Rightarrow> string \<Rightarrow> error + val" where
  "getIndex pr v k =
     (if v = VUndef \<or> v = VNull then Inl (TypeError ''Cannot read property of undefined or null'')
      else case ownProperty v k of
             Some x \<Rightarrow> Inr x
           | None \<Rightarrow> if pr v k then Inl (Inherited k) else Inr VUndef)"

text \<open>
  The loop \<open>for (let i = 0; i < members.length && value; i++) value = value[members[i]]\<close>.
\<close>

function membersLoop :: "prototypes \<Rightarrow> val \<Rightarrow> string list \<Rightarrow> nat \<Rightarrow> error + val" where
  "membersLoop pr v ms i =
     (if i < length ms \<and> truthy v then
        (case getIndex pr v (ms ! i) of
           Inl e \<Rightarrow> Inl e
         | Inr v' \<Rightarrow> membersLoop pr v' ms (i + 1))
      else Inr v)"
  by pat_completeness auto

termination
  by (relation "measure (\<lambda>(pr, v, ms, i). length ms - i)") auto

declare membersLoop.simps [simp del]

text \<open>
  \<open>_resolveSymbolMembers\<close> from the base's metadata on: the three branches, and \<open>null\<close>
  for a class without statics or with a longer member path.
\<close>

definition projectMembers ::
  "prototypes \<Rightarrow> StaticSymbol \<Rightarrow> val \<Rightarrow> error + ResolvedStaticSymbol option" where
  "projectMembers pr staticSymbol baseMetadata =
     (let ms = members staticSymbol in
      case baseMetadata of
        VSym b \<Rightarrow>
          Inr (Some \<lparr>symbol = staticSymbol,
                     metadata = VSym (getStaticSymbol (filePath b) (name b) ms)\<rparr>)
      | _ \<Rightarrow>
          if truthy baseMetadata \<and> getField baseMetadata ''__symbolic'' = VStr ''class'' then
            (if truthy (getField baseMetadata ''statics'') \<and> length ms = 1 then
               (case getIndex pr (getField baseMetadata ''statics'') (ms ! 0) of
                  Inl e \<Rightarrow> Inl e
                | Inr v \<Rightarrow> Inr (Some \<lparr>symbol = staticSymbol, metadata = v\<rparr>))
             else Inr None)
          else
            (case membersLoop pr baseMetadata ms 0 of
               Inl e \<Rightarrow> Inl e
             | Inr v \<Rightarrow> Inr (Some \<lparr>symbol = staticSymbol, metadata = v\<rparr>)))"

definition resolveSymbolFromSummary ::
  "resolver \<Rightarrow> StaticSymbol \<Rightarrow> ResolvedStaticSymbol option" where
  "resolveSymbolFromSummary r staticSymbol =
     (case resolveSummary (summaryResolver r) staticSymbol of
        None \<Rightarrow> None
      | Some md \<Rightarrow> Some \<lparr>symbol = staticSymbol, metadata = md\<rparr>)"

text \<open>
  \<open>resolveSymbol\<close> and \<open>_resolveSymbolMembers\<close>. The result is a resolved symbol or none
  (\<open>null\<close> or \<open>undefined\<close>); the number is the depth the walker may nest to, and \<open>pr\<close> is
  what the run time's prototypes hold.
\<close>

function resolveSymbol ::
    "prototypes \<Rightarrow> resolver \<Rightarrow> nat \<Rightarrow> StaticSymbol \<Rightarrow> resolverState
       \<Rightarrow> ((error + ResolvedStaticSymbol option) \<times> resolverState) option"
  and resolveSymbolMembers ::
    "prototypes \<Rightarrow> resolver \<Rightarrow> nat \<Rightarrow> StaticSymbol \<Rightarrow> resolverState
       \<Rightarrow> ((error + ResolvedStaticSymbol option) \<times> resolverState) option"
where
  "resolveSymbol pr r n staticSymbol s =
     (if length (members staticSymbol) > 0 then resolveSymbolMembers pr r n staticSymbol s
      else
        (case resolveSymbolFromSummary r staticSymbol of
           Some result \<Rightarrow> Some (Inr (Some result), s)
         | None \<Rightarrow>
             (case createSymbolsOf r n (filePath staticSymbol) s of
                None \<Rightarrow> None
              | Some (Inl e, s') \<Rightarrow> Some (Inl e, s')
              | Some (Inr u, s') \<Rightarrow>
                  Some (Inr (map_of (resolvedSymbols s') staticSymbol), s'))))"
| "resolveSymbolMembers pr r n staticSymbol s =
     (case resolveSymbol pr r n
             (getStaticSymbol (filePath staticSymbol) (name staticSymbol) []) s of
        None \<Rightarrow> None
      | Some (Inl e, s') \<Rightarrow> Some (Inl e, s')
      | Some (Inr None, s') \<Rightarrow> Some (Inr None, s')
      | Some (Inr (Some baseResolvedSymbol), s') \<Rightarrow>
          Some (projectMembers pr staticSymbol (metadata baseResolvedSymbol), s'))"
  by pat_completeness auto

termination
  by (relation "measure (\<lambda>x. case x of
      Inl (pr, r, n, y, s) \<Rightarrow> (if members y = [] then 0 else 2)
    | Inr (pr, r, n, y, s) \<Rightarrow> 1)") (auto simp: getStaticSymbol_def)

declare resolveSymbol.simps [simp del] resolveSymbolMembers.simps [simp del]

section \<open>Notions the properties are stated with\<close>

text \<open>
  Positions in a metadata tree: a path steps into the entry of a string map or the element
  of an array. \<open>nodeAt\<close> is the node a path leads to. \<open>descends\<close> says that the path
  exists and passes no reference node on its way (the transformer replaces a reference
  node as a whole and does not visit below it). \<open>paramsAlong\<close> collects the parameters
  declared by the function nodes the path passes, outermost first: the parameters in
  scope at the position.
\<close>

datatype step = Key string | Index nat

fun nodeAt :: "val \<Rightarrow> step list \<Rightarrow> val option" where
  "nodeAt v [] = Some v"
| "nodeAt (VArr xs) (Index i # p) = (if i < length xs then nodeAt (xs ! i) p else None)"
| "nodeAt (VMap m) (Key k # p) = (case map_of m k of None \<Rightarrow> None | Some v \<Rightarrow> nodeAt v p)"
| "nodeAt v (st # p) = None"

fun descends :: "val \<Rightarrow> step list \<Rightarrow> bool" where
  "descends v [] = True"
| "descends (VArr xs) (Index i # p) = (i < length xs \<and> descends (xs ! i) p)"
| "descends (VMap m) (Key k # p) =
     (getProp m ''__symbolic'' \<noteq> VStr ''reference'' \<and>
      (case map_of m k of None \<Rightarrow> False | Some v \<Rightarrow> descends v p))"
| "descends v (st # p) = False"

fun paramsAlong :: "val \<Rightarrow> step list \<Rightarrow> val list" where
  "paramsAlong v [] = []"
| "paramsAlong (VArr xs) (Index i # p) = (if i < length xs then paramsAlong (xs ! i) p else [])"
| "paramsAlong (VMap m) (Key k # p) =
     (if getProp m ''__symbolic'' = VStr ''function''
      then (case spreadOrEmpty (getProp m ''parameters'') of Inl e \<Rightarrow> [] | Inr ps \<Rightarrow> ps)
      else []) @
     (case map_of m k of None \<Rightarrow> [] | Some v \<Rightarrow> paramsAlong v p)"
| "paramsAlong v (st # p) = []"


text \<open>
  What a step of the resolver leaves alone: \<open>frame\<close> keeps the resolved-symbol cache and
  the visited files, \<open>cacheFrame\<close> the metadata cache as well. \<open>cacheInv\<close> is the
  invariant of the resolved-symbol cache: an entry stands under the handle it carries,
  and that handle has no member path. \<open>cacheAgrees\<close> says that the metadata cache holds
  what loading would give.
\<close>

definition frame :: "resolverState \<Rightarrow> resolverState \<Rightarrow> bool" where
  "frame s s' =
     (resolvedSymbols s' = resolvedSymbols s \<and> resolvedFilePaths s' = resolvedFilePaths s)"

definition cacheFrame :: "resolverState \<Rightarrow> resolverState \<Rightarrow> bool" where
  "cacheFrame s s' = (frame s s' \<and> metadataCache s' = metadataCache s)"

definition cacheInv :: "resolverState \<Rightarrow> bool" where
  "cacheInv s =
     (\<forall>(k, v) \<in> set (resolvedSymbols s). symbol v = k \<and> members k = [])"

definition cacheAgrees :: "resolver \<Rightarrow> resolverState \<Rightarrow> bool" where
  "cacheAgrees r s =
     (\<forall>f md. metadataCache s f = Some md \<longrightarrow> md = loadModuleMetadata r f)"

text \<open>
  For the walker: \<open>localTo\<close> says that the entries of a list are handles of one file
  without member paths; \<open>grows\<close> relates a state to a later one (the visited files only
  grow, the two invariants are kept, the metadata cache keeps its entries, the
  resolved-symbol cache keeps its keys). \<open>wildcardsInto\<close> says that the wildcard directives
  of a list, read in a file, resolve to files of a set when they resolve at all, and
  \<open>closedUnder\<close> that this holds for the loaded document of every file of the set.
\<close>

definition localTo :: "string \<Rightarrow> ResolvedStaticSymbol list \<Rightarrow> bool" where
  "localTo file resolved =
     (\<forall>rs \<in> set resolved. members (symbol rs) = [] \<and> filePath (symbol rs) = file)"

definition grows :: "resolver \<Rightarrow> resolverState \<Rightarrow> resolverState \<Rightarrow> bool" where
  "grows r s s' =
     (resolvedFilePaths s \<subseteq> resolvedFilePaths s' \<and>
      (cacheInv s \<longrightarrow> cacheInv s') \<and>
      (cacheAgrees r s \<longrightarrow> cacheAgrees r s') \<and>
      (\<forall>f md. metadataCache s f = Some md \<longrightarrow> metadataCache s' f = Some md) \<and>
      fst ` set (resolvedSymbols s) \<subseteq> fst ` set (resolvedSymbols s'))"

definition wildcardsInto :: "resolver \<Rightarrow> string set \<Rightarrow> string \<Rightarrow> moduleExport list \<Rightarrow> bool" where
  "wildcardsInto r F f es =
     (\<forall>e \<in> set es. exportList e = None \<longrightarrow>
        (\<forall>p. moduleNameToFileName (host r) (fromModule e) f = Returns (Some p) \<longrightarrow>
             p \<noteq> [] \<longrightarrow> p \<in> F))"

definition closedUnder :: "resolver \<Rightarrow> string set \<Rightarrow> bool" where
  "closedUnder r F =
     (\<forall>f \<in> F. wildcardsInto r F f
        (case exports (loadModuleMetadata r f) of None \<Rightarrow> [] | Some es \<Rightarrow> es))"








subsection \<open>Example collaborators and documents\<close>

text \<open>
  A run time in which every value finds the properties of \<open>Object.prototype\<close> in its
  prototypes, and no others.
\<close>

definition objectPrototype :: prototypes where
  "objectPrototype v k =
     (k \<in> set [''constructor'', ''hasOwnProperty'', ''isPrototypeOf'', ''propertyIsEnumerable'',
                ''toLocaleString'', ''toString'', ''valueOf'', ''__proto__'',
                ''__defineGetter__'', ''__defineSetter__'', ''__lookupGetter__'',
                ''__lookupSetter__''])"

definition noSummaries :: SummaryResolver where
  "noSummaries = \<lparr>resolveSummary = (\<lambda>y. None), summarySymbolsOf = (\<lambda>f. [])\<rparr>"

definition emptyHost :: StaticSymbolResolverHost where
  "emptyHost = \<lparr>getMetadataFor = (\<lambda>f. None), moduleNameToFileName = (\<lambda>mo f. Returns None)\<rparr>"

text \<open>
  Hosts that throw for every module specifier: the first an \<open>Error\<close> instance, the second
  a constructor (so that \<open>new e\<close> yields an error object).
\<close>

definition throwingHost :: StaticSymbolResolverHost where
  "throwingHost = \<lparr>getMetadataFor = (\<lambda>f. None),
     moduleNameToFileName = (\<lambda>mo f. Throws NotAConstructor)\<rparr>"

definition classThrowingHost :: StaticSymbolResolverHost where
  "classThrowingHost = \<lparr>getMetadataFor = (\<lambda>f. None),
     moduleNameToFileName = (\<lambda>mo f. Throws (Constructs (Error ''no such module'')))\<rparr>"

definition scopeExample :: val where
  "scopeExample = VArr
     [VMap [(''__symbolic'', VStr ''function''), (''parameters'', VArr [VStr ''x'']),
            (''value'', VMap [(''__symbolic'', VStr ''reference''), (''name'', VStr ''x'')])],
      VMap [(''__symbolic'', VStr ''reference''), (''name'', VStr ''x'')]]"

text \<open>Two files that wildcard-export from each other, each with a declaration of its own.\<close>

definition cycleHost :: StaticSymbolResolverHost where
  "cycleHost =
     \<lparr>getMetadataFor = (\<lambda>f.
        if f = ''/a.ts'' then
          Some [\<lparr>version = 3, declarations = Some [(''a'', VNum 1)],
                 exports = Some [\<lparr>exportList = None, fromModule = ''./b''\<rparr>]\<rparr>]
        else if f = ''/b.ts'' then
          Some [\<lparr>version = 3, declarations = Some [(''b'', VNum 2)],
                 exports = Some [\<lparr>exportList = None, fromModule = ''./a''\<rparr>]\<rparr>]
        else None),
      moduleNameToFileName = (\<lambda>mo f.
        if mo = ''./a'' then Returns (Some ''/a.ts'')
        else if mo = ''./b'' then Returns (Some ''/b.ts'')
        else Returns None)\<rparr>"

definition cycleResolver :: resolver where
  "cycleResolver = \<lparr>host = cycleHost, summaryResolver = noSummaries, errorRecorder = False\<rparr>"

text \<open>
  A file that declares a class with a static member and a nested configuration object.
\<close>

definition memberHost :: StaticSymbolResolverHost where
  "memberHost =
     \<lparr>getMetadataFor = (\<lambda>f.
        if f = ''/c.ts'' then
          Some [\<lparr>version = 3,
                 declarations = Some
                   [(''C'', VMap [(''__symbolic'', VStr ''class''),
                                  (''statics'', VMap [(''foo'', VNum 42)])]),
                    (''config'', VMap [(''a'', VMap [(''b'', VNum 3)])])],
                 exports = None\<rparr>]
        else None),
      moduleNameToFileName = (\<lambda>mo f. Returns None)\<rparr>"

definition memberResolver :: resolver where
  "memberResolver = \<lparr>host = memberHost, summaryResolver = noSummaries, errorRecorder = False\<rparr>"




text \<open>
  A host that offers several documents for one file, a document of a later version for
  another, and a document with a negative version for a third; the resolver has an error
  recorder.
\<close>

definition versionsHost :: StaticSymbolResolverHost where
  "versionsHost =
     \<lparr>getMetadataFor = (\<lambda>f.
        if f = ''/many.ts'' then
          Some [\<lparr>version = 1, declarations = Some [(''one'', VNum 1)], exports = None\<rparr>,
                \<lparr>version = 3, declarations = Some [(''first'', VNum 3)], exports = None\<rparr>,
                \<lparr>version = 2, declarations = Some [(''two'', VNum 2)], exports = None\<rparr>,
                \<lparr>version = 3, declarations = Some [(''second'', VNum 3)], exports = None\<rparr>]
        else if f = ''/new.ts'' then
          Some [\<lparr>version = 99, declarations = Some [(''x'', VNum 1), (''y'', VStr ''s'')],
                 exports = None\<rparr>]
        else if f = ''/old.ts'' then
          Some [\<lparr>version = - 1, declarations = Some [(''x'', VNum 1)], exports = None\<rparr>]
        else None),
      moduleNameToFileName = (\<lambda>mo f. Returns None)\<rparr>"

definition versionsResolver :: resolver where
  "versionsResolver =
     \<lparr>host = versionsHost, summaryResolver = noSummaries, errorRecorder = True\<rparr>"

section \<open>Properties of the reference transformer\<close>

lemma visitReference_params:
  "visitReference r f m fp s = (res, fp', s') \<Longrightarrow> fp' = fp"
  by (auto simp: visitReference_def Let_def split: if_splits val.splits prod.splits sum.splits)

lemma visit_restores:
  "visitValue r f v fp s = (Inr out, fp', s') \<Longrightarrow> fp' = fp"
  "visitArray r f vs fp s = (Inr outs, fp', s') \<Longrightarrow> fp' = fp"
  "visitStringMap r f m fp s = (Inr out, fp', s') \<Longrightarrow> fp' = fp"
  "superVisitStringMap r f m fp s = (Inr outm, fp', s') \<Longrightarrow> fp' = fp"
proof (induction r f v fp s and r f vs fp s and r f m fp s and r f m fp s
    arbitrary: out fp' s' and outs fp' s' and out fp' s' and outm fp' s'
    rule: visitValue_visitArray_visitStringMap_superVisitStringMap.induct)
  case (1 r sourceFile arr functionParams s)
  then show ?case by (auto split: prod.splits sum.splits)
next
  case (2 r sourceFile m functionParams s)
  then show ?case by simp
next
  case (10 r sourceFile v vs functionParams s)
  then show ?case by (fastforce split: prod.splits sum.splits)
next
  case (11 r sourceFile m functionParams s)
  show ?case
  proof (cases "getProp m ''__symbolic'' = VStr ''function''")
    case True
    from "11.prems" True obtain ps result fp1 where
      sp: "spreadOrEmpty (getProp m ''parameters'') = Inr ps" and
      sv: "superVisitStringMap r sourceFile m (functionParams @ ps) s = (Inr result, fp1, s')" and
      fp': "fp' = take (length functionParams) fp1"
      by (auto simp: Let_def split: prod.splits sum.splits)
    from "11.IH"(1)[OF refl True refl sp sv] have "fp1 = functionParams @ ps" .
    with fp' show ?thesis by simp
  next
    case False
    then show ?thesis using 11
      by (auto simp: Let_def split: prod.splits sum.splits if_splits dest: visitReference_params)
  qed
next
  case (13 r sourceFile k v kvs functionParams s)
  then show ?case by (fastforce split: prod.splits sum.splits)
qed simp_all


lemma visitArray_nth:
  "visitArray r f vs fp s = (Inr outs, fp', s') \<Longrightarrow> i < length vs \<Longrightarrow>
     length outs = length vs \<and>
     (\<exists>s1 s1'. visitValue r f (vs ! i) fp s1 = (Inr (outs ! i), fp, s1'))"
proof (induction vs arbitrary: outs s i fp')
  case Nil
  then show ?case by simp
next
  case (Cons v vs)
  from Cons.prems(1) obtain v' fp1 s1 vs' fp2 where
    hd: "visitValue r f v fp s = (Inr v', fp1, s1)" and
    tl: "visitArray r f vs fp1 s1 = (Inr vs', fp2, s')" and
    outs: "outs = v' # vs'"
    by (auto split: prod.splits sum.splits)
  from visit_restores(1)[OF hd] have fp1: "fp1 = fp" .
  from tl fp1 have tl': "visitArray r f vs fp s1 = (Inr vs', fp2, s')" by simp
  show ?case
  proof (cases i)
    case 0
    have "length vs' = length vs"
    proof (cases vs)
      case Nil
      then show ?thesis using tl by simp
    next
      case (Cons a list)
      then show ?thesis using Cons.IH[OF tl', of 0] by simp
    qed
    then show ?thesis using 0 hd fp1 outs by auto
  next
    case (Suc j)
    then show ?thesis using Cons.IH[OF tl', of j] outs Cons.prems(2) by auto
  qed
qed

lemma superVisitStringMap_entry:
  "superVisitStringMap r f m fp s = (Inr outm, fp', s') \<Longrightarrow> map_of m k = Some v \<Longrightarrow>
     \<exists>v' s1 s1'. map_of outm k = Some v' \<and> visitValue r f v fp s1 = (Inr v', fp, s1')"
proof (induction m arbitrary: outm s fp')
  case Nil
  then show ?case by simp
next
  case (Cons kv m)
  obtain k0 v0 where kv: "kv = (k0, v0)" by (cases kv)
  from Cons.prems(1) kv obtain v' fp1 s1 kvs' fp2 where
    hd: "visitValue r f v0 fp s = (Inr v', fp1, s1)" and
    tl: "superVisitStringMap r f m fp1 s1 = (Inr kvs', fp2, s')" and
    outm: "outm = (k0, v') # kvs'"
    by (auto split: prod.splits sum.splits)
  from visit_restores(1)[OF hd] have fp1: "fp1 = fp" .
  from tl fp1 have tl': "superVisitStringMap r f m fp s1 = (Inr kvs', fp2, s')" by simp
  show ?case
  proof (cases "k0 = k")
    case True
    then show ?thesis using hd fp1 outm Cons.prems(2) kv by auto
  next
    case False
    then show ?thesis using Cons.IH[OF tl'] outm Cons.prems(2) kv by auto
  qed
qed

lemma visit_descends:
  "visitValue r f v fp s = (Inr out, fp', s') \<Longrightarrow> descends v path \<Longrightarrow>
   nodeAt v path = Some v1 \<Longrightarrow>
     \<exists>out1 s1 s1'. nodeAt out path = Some out1 \<and>
       visitValue r f v1 (fp @ paramsAlong v path) s1 =
         (Inr out1, fp @ paramsAlong v path, s1')"
proof (induction path arbitrary: v fp s out fp' s')
  case Nil
  then show ?case using visit_restores(1)[OF Nil.prems(1)] by auto
next
  case (Cons st path)
  show ?case
  proof (cases v)
    case (VArr xs)
    with Cons.prems(2) obtain i where st: "st = Index i" and i: "i < length xs"
      and d: "descends (xs ! i) path"
      by (cases st) auto
    from Cons.prems(1) VArr obtain outs where
      va: "visitArray r f xs fp s = (Inr outs, fp', s')" and out: "out = VArr outs"
      by (auto split: prod.splits sum.splits)
    from visitArray_nth[OF va i] obtain s1 s1' where
      len: "length outs = length xs" and
      vi: "visitValue r f (xs ! i) fp s1 = (Inr (outs ! i), fp, s1')"
      by blast
    from Cons.prems(3) VArr st i have n: "nodeAt (xs ! i) path = Some v1" by simp
    from Cons.IH[OF vi d n] show ?thesis using VArr st i out len by simp
  next
    case (VMap m)
    with Cons.prems(2) obtain k c where st: "st = Key k" and
      notref: "getProp m ''__symbolic'' \<noteq> VStr ''reference''" and
      c: "map_of m k = Some c" and d: "descends c path"
      by (cases st) (auto split: option.splits)
    from Cons.prems(3) VMap st c have n: "nodeAt c path = Some v1" by simp
    show ?thesis
    proof (cases "getProp m ''__symbolic'' = VStr ''function''")
      case True
      from Cons.prems(1) VMap True obtain ps result fp1 where
        sp: "spreadOrEmpty (getProp m ''parameters'') = Inr ps" and
        sv: "superVisitStringMap r f m (fp @ ps) s = (Inr result, fp1, s')" and
        out: "out = VMap result"
        by (auto simp: Let_def split: prod.splits sum.splits)
      from superVisitStringMap_entry[OF sv c] obtain c' s1 s1' where
        c': "map_of result k = Some c'" and
        vc: "visitValue r f c (fp @ ps) s1 = (Inr c', fp @ ps, s1')"
        by blast
      from Cons.IH[OF vc d n] show ?thesis using VMap st c c' out True sp by simp
    next
      case False
      from Cons.prems(1) VMap False notref obtain result fp1 where
        sv: "superVisitStringMap r f m fp s = (Inr result, fp1, s')" and
        out: "out = VMap result"
        by (auto simp: Let_def split: prod.splits sum.splits)
      from superVisitStringMap_entry[OF sv c] obtain c' s1 s1' where
        c': "map_of result k = Some c'" and
        vc: "visitValue r f c fp s1 = (Inr c', fp, s1')"
        by blast
      from Cons.IH[OF vc d n] show ?thesis using VMap st c c' out False by simp
    qed
  qed (use Cons.prems(2) in auto)
qed

lemma indexOfFrom_str:
  "0 \<le> i \<Longrightarrow> (0 \<le> indexOfFrom i xs (VStr n)) = (VStr n \<in> set xs)"
proof (induction xs arbitrary: i)
  case Nil
  then show ?case by simp
next
  case (Cons x xs)
  have "strictEquals x (VStr n) = (x = VStr n)" by (cases x) auto
  then show ?case using Cons.IH[of "i + 1"] Cons.prems by auto
qed

lemma visitReference_local:
  assumes "getProp ref ''__symbolic'' = VStr ''reference''"
    and "\<not> truthy (getProp ref ''module'')"
    and "getProp ref ''name'' = VStr n" and "n \<noteq> []"
  shows "visitValue r f (VMap ref) fp s =
     (if VStr n \<in> set fp \<or> f = []
      then (Inr (VMap [(''__symbolic'', VStr ''reference''), (''name'', VStr n)]), fp, s)
      else (Inr (VSym (getStaticSymbol f n [])), fp, s))"
  using assms indexOfFrom_str[of 0 fp n]
  by (simp add: visitReference_def Let_def indexOf_def isPath_def)


text \<open>
  Claim C3. Let a visit of the transformer return a result, and take a position of the
  visited tree that the visit descends to, where a reference node stands that has no
  module specifier and a non-empty string as its name. If the name is in scope there (it
  is among \<open>functionParams\<close> as passed in, or among the parameters declared by a function
  node above the position), the result holds at that position the marker
  \<open>{__symbolic: 'reference', name}\<close>, not a handle. If the name is not in scope, which is
  so outside every function body when the visit starts with no parameters as in
  \<open>createResolvedSymbol\<close>, the result holds the handle of (current file, name), the file
  path being non-empty. And \<open>functionParams\<close> is handed back exactly as it was passed in:
  every function node has truncated it to its prior length.
\<close>

theorem function_parameter_scope:
  assumes "visitValue r f v fp s = (Inr out, fp', s')"
    and "descends v path" and "nodeAt v path = Some (VMap ref)"
    and "getProp ref ''__symbolic'' = VStr ''reference''"
    and "\<not> truthy (getProp ref ''module'')"
    and "getProp ref ''name'' = VStr n" and "n \<noteq> []"
  shows "fp' = fp \<and>
     (VStr n \<in> set (fp @ paramsAlong v path) \<longrightarrow>
        nodeAt out path =
          Some (VMap [(''__symbolic'', VStr ''reference''), (''name'', VStr n)])) \<and>
     (VStr n \<notin> set (fp @ paramsAlong v path) \<and> f \<noteq> [] \<longrightarrow>
        nodeAt out path = Some (VSym (getStaticSymbol f n [])))"
proof -
  from visit_descends[OF assms(1,2,3)] obtain out1 s1 s1' where
    n: "nodeAt out path = Some out1" and
    v: "visitValue r f (VMap ref) (fp @ paramsAlong v path) s1 =
          (Inr out1, fp @ paramsAlong v path, s1')"
    by blast
  from v visitReference_local[OF assms(4,5,6,7), of r f "fp @ paramsAlong v path" s1] n
    visit_restores(1)[OF assms(1)]
  show ?thesis by (auto split: if_splits)
qed

theorem function_parameter_scope_witness:
  "visitValue \<lparr>host = emptyHost, summaryResolver = noSummaries, errorRecorder = False\<rparr>
     ''/a.ts'' scopeExample [] newResolver =
     (Inr (VArr
        [VMap [(''__symbolic'', VStr ''function''), (''parameters'', VArr [VStr ''x'']),
               (''value'', VMap [(''__symbolic'', VStr ''reference''), (''name'', VStr ''x'')])],
         VSym (getStaticSymbol ''/a.ts'' ''x'' [])]), [], newResolver) \<and>
   descends scopeExample [Index 0, Key ''value''] \<and>
   nodeAt scopeExample [Index 0, Key ''value''] =
     Some (VMap [(''__symbolic'', VStr ''reference''), (''name'', VStr ''x'')]) \<and>
   VStr ''x'' \<in> set ([] @ paramsAlong scopeExample [Index 0, Key ''value'']) \<and>
   descends scopeExample [Index 1] \<and>
   VStr ''x'' \<notin> set ([] @ paramsAlong scopeExample [Index 1])"
proof -
  let ?r = "\<lparr>host = emptyHost, summaryResolver = noSummaries, errorRecorder = False\<rparr>"
  let ?ref = "[(''__symbolic'', VStr ''reference''), (''name'', VStr ''x'')]"
  let ?out = "VArr
        [VMap [(''__symbolic'', VStr ''function''), (''parameters'', VArr [VStr ''x'']),
               (''value'', VMap ?ref)],
         VSym (getStaticSymbol ''/a.ts'' ''x'' [])]"
  have v: "visitValue ?r ''/a.ts'' scopeExample [] newResolver = (Inr ?out, [], newResolver)"
    by (simp add: scopeExample_def getProp_def visitReference_def indexOf_def isPath_def
        Let_def)
  have d: "descends scopeExample [Index 0, Key ''value'']"
    by (simp add: scopeExample_def getProp_def)
  have n: "nodeAt scopeExample [Index 0, Key ''value''] = Some (VMap ?ref)"
    by (simp add: scopeExample_def)
  have k: "getProp ?ref ''__symbolic'' = VStr ''reference''"
    and m: "\<not> truthy (getProp ?ref ''module'')"
    and nm: "getProp ?ref ''name'' = VStr ''x''" and ne: "''x'' \<noteq> []"
    by (simp_all add: getProp_def)
  have p: "VStr ''x'' \<in> set ([] @ paramsAlong scopeExample [Index 0, Key ''value''])"
    by (simp add: scopeExample_def getProp_def)
  from function_parameter_scope[OF v d n k m nm ne] p
  have "nodeAt ?out [Index 0, Key ''value''] = Some (VMap ?ref)"
    by blast
  moreover note v
  moreover have "descends scopeExample [Index 1]"
    and "VStr ''x'' \<notin> set ([] @ paramsAlong scopeExample [Index 1])"
    by (simp_all add: scopeExample_def getProp_def)
  ultimately show ?thesis using d n p by simp
qed

text \<open>
  Claim C6, as amended. Take a reference node with a name and a module specifier, a
  non-empty string, for which the host returns no file path (\<open>null\<close>, \<open>undefined\<close> or the
  empty string). The transformer replaces the node by the error marker whose message is
  \<open>Could not resolve <module> relative to <current file>.\<close>, leaves \<open>functionParams\<close>
  and the resolver's state as they are, and goes on: the elements after it in an array
  and the entries after it in a string map are visited next, and the marker is put before
  their results.
\<close>

theorem unresolved_module_gives_error_marker:
  assumes "getProp m ''__symbolic'' = VStr ''reference''"
    and "truthy (getProp m ''name'')"
    and "getProp m ''module'' = VStr mo" and "mo \<noteq> []"
    and "moduleNameToFileName (host r) mo f = Returns p" and "\<not> isPath p"
  shows "visitValue r f (VMap m) fp s =
       (Inr (VMap [(''__symbolic'', VStr ''error''),
          (''message'', VStr (''Could not resolve '' @ mo @ '' relative to '' @ f @ ''.''))]),
        fp, s) \<and>
     visitArray r f (VMap m # vs) fp s =
       (case visitArray r f vs fp s of
          (Inl e, st) \<Rightarrow> (Inl e, st)
        | (Inr vs', st) \<Rightarrow>
            (Inr (VMap [(''__symbolic'', VStr ''error''),
               (''message'', VStr (''Could not resolve '' @ mo @ '' relative to '' @ f @ ''.''))]
              # vs'), st)) \<and>
     superVisitStringMap r f ((k, VMap m) # kvs) fp s =
       (case superVisitStringMap r f kvs fp s of
          (Inl e, st) \<Rightarrow> (Inl e, st)
        | (Inr kvs', st) \<Rightarrow>
            (Inr ((k, VMap [(''__symbolic'', VStr ''error''),
               (''message'', VStr (''Could not resolve '' @ mo @ '' relative to '' @ f @ ''.''))])
              # kvs'), st))"
proof -
  have "visitValue r f (VMap m) fp s =
       (Inr (VMap [(''__symbolic'', VStr ''error''),
          (''message'', VStr (''Could not resolve '' @ mo @ '' relative to '' @ f @ ''.''))]),
        fp, s)"
    using assms by (simp add: visitReference_def Let_def resolveModule_def)
  then show ?thesis by (simp split: prod.splits sum.splits)
qed

theorem unresolved_module_gives_error_marker_witness:
  "visitArray \<lparr>host = emptyHost, summaryResolver = noSummaries, errorRecorder = False\<rparr>
     ''/a.ts''
     [VMap [(''__symbolic'', VStr ''reference''), (''module'', VStr ''./missing''),
            (''name'', VStr ''x'')],
      VNum 7] [] newResolver =
   (Inr [VMap [(''__symbolic'', VStr ''error''),
           (''message'', VStr ''Could not resolve ./missing relative to /a.ts.'')],
         VNum 7], [], newResolver)"
proof -
  let ?r = "\<lparr>host = emptyHost, summaryResolver = noSummaries, errorRecorder = False\<rparr>"
  let ?m = "[(''__symbolic'', VStr ''reference''), (''module'', VStr ''./missing''),
            (''name'', VStr ''x'')]"
  have 1: "getProp ?m ''__symbolic'' = VStr ''reference''"
    and 2: "truthy (getProp ?m ''name'')"
    and 3: "getProp ?m ''module'' = VStr ''./missing''" and 4: "''./missing'' \<noteq> []"
    and 5: "moduleNameToFileName (host ?r) ''./missing'' ''/a.ts'' = Returns None"
    and 6: "\<not> isPath None"
    by (simp_all add: getProp_def emptyHost_def isPath_def)
  from unresolved_module_gives_error_marker[OF 1 2 3 4 5 6,
      where vs = "[VNum 7]" and fp = "[]" and s = newResolver]
  show ?thesis by simp
qed

text \<open>
  Claim C6 as stated fails where the host throws instead of returning no path, and the
  resolver has no error recorder. \<open>resolveModule\<close> catches the exception and evaluates
  \<open>reportError(new e, null, containingFile)\<close>: for a thrown constructor \<open>reportError\<close>
  throws the error, there being no recorder, and for a thrown \<open>Error\<close> instance \<open>new e\<close> is
  a \<open>TypeError\<close> already. Either way the visit of the array stops with the exception:
  there is no error marker, and the element after the node is not visited.
\<close>

theorem throwing_host_aborts_transform:
  "visitArray \<lparr>host = classThrowingHost, summaryResolver = noSummaries, errorRecorder = False\<rparr>
     ''/a.ts''
     [VMap [(''__symbolic'', VStr ''reference''), (''module'', VStr ''./missing''),
            (''name'', VStr ''x'')],
      VNum 7] [] newResolver =
   (Inl (Error ''no such module''), [],
    newResolver\<lparr>console :=
      [''Could not resolve module '' @ [CHR 0x27] @ ''./missing'' @ [CHR 0x27] @
       '' relative to file /a.ts'']\<rparr>) \<and>
   visitArray \<lparr>host = throwingHost, summaryResolver = noSummaries, errorRecorder = False\<rparr>
     ''/a.ts''
     [VMap [(''__symbolic'', VStr ''reference''), (''module'', VStr ''./missing''),
            (''name'', VStr ''x'')],
      VNum 7] [] newResolver =
   (Inl (TypeError ''e is not a constructor''), [],
    newResolver\<lparr>console :=
      [''Could not resolve module '' @ [CHR 0x27] @ ''./missing'' @ [CHR 0x27] @
       '' relative to file /a.ts'']\<rparr>)"
  by (simp add: getProp_def visitReference_def resolveModule_def reportError_def
      throwingHost_def classThrowingHost_def newResolver_def)

section \<open>Properties of the resolver\<close>

subsection \<open>What the steps of the resolver leave alone\<close>

lemma frame_refl: "frame s s" "cacheFrame s s"
  by (simp_all add: frame_def cacheFrame_def)

lemma frame_trans: "frame s s' \<Longrightarrow> frame s' s'' \<Longrightarrow> frame s s''"
  by (simp add: frame_def)

lemma cacheFrame_trans: "cacheFrame s s' \<Longrightarrow> cacheFrame s' s'' \<Longrightarrow> cacheFrame s s''"
  by (simp add: frame_def cacheFrame_def)

lemma reportError_frame: "reportError r e c p s = (res, s') \<Longrightarrow> cacheFrame s s'"
  by (auto simp: reportError_def frame_def cacheFrame_def split: if_splits)

lemma resolveModule_frame: "resolveModule r mo f s = (res, s') \<Longrightarrow> cacheFrame s s'"
  by (auto simp: resolveModule_def frame_def cacheFrame_def reportError_def Let_def
      split: hostCall.splits thrown.splits if_splits prod.splits sum.splits)

lemma visitReference_frame:
  "visitReference r f m fp s = (res, fp', s') \<Longrightarrow> cacheFrame s s'"
  by (auto simp: visitReference_def Let_def frame_refl
      split: if_splits val.splits prod.splits sum.splits dest: resolveModule_frame)

lemma visit_frame:
  "visitValue r f v fp s = (res1, fp1, s1) \<Longrightarrow> cacheFrame s s1"
  "visitArray r f vs fp s = (res2, fp2, s2) \<Longrightarrow> cacheFrame s s2"
  "visitStringMap r f m fp s = (res3, fp3, s3) \<Longrightarrow> cacheFrame s s3"
  "superVisitStringMap r f kvs fp s = (res4, fp4, s4) \<Longrightarrow> cacheFrame s s4"
proof (induction r f v fp s and r f vs fp s and r f m fp s and r f kvs fp s
    arbitrary: res1 fp1 s1 and res2 fp2 s2 and res3 fp3 s3 and res4 fp4 s4
    rule: visitValue_visitArray_visitStringMap_superVisitStringMap.induct)
  case (1 r sourceFile arr functionParams s)
  then show ?case by (auto split: prod.splits sum.splits)
next
  case (2 r sourceFile m functionParams s)
  then show ?case by simp
next
  case (10 r sourceFile v vs functionParams s)
  then show ?case
    by (fastforce split: prod.splits sum.splits intro: cacheFrame_trans)
next
  case (11 r sourceFile m functionParams s)
  show ?case
  proof (cases "getProp m ''__symbolic'' = VStr ''function''")
    case True
    show ?thesis
    proof (cases "spreadOrEmpty (getProp m ''parameters'')")
      case (Inl e)
      then show ?thesis using "11.prems" True by (simp add: frame_refl)
    next
      case (Inr ps)
      obtain res fp' s' where
        sv: "superVisitStringMap r sourceFile m (functionParams @ ps) s = (res, fp', s')"
        by (cases "superVisitStringMap r sourceFile m (functionParams @ ps) s") auto
      from "11.IH"(1)[OF refl True refl Inr sv] have "cacheFrame s s'" .
      then show ?thesis using "11.prems" True Inr sv
        by (auto simp: Let_def split: sum.splits)
    qed
  next
    case False
    show ?thesis
    proof (cases "getProp m ''__symbolic'' = VStr ''reference''")
      case True
      then show ?thesis using "11.prems" False
        by (auto dest: visitReference_frame)
    next
      case notref: False
      obtain res fp' s' where
        sv: "superVisitStringMap r sourceFile m functionParams s = (res, fp', s')"
        by (cases "superVisitStringMap r sourceFile m functionParams s") auto
      from "11.IH"(2)[OF refl False notref sv] have "cacheFrame s s'" .
      then show ?thesis using "11.prems" False notref sv
        by (auto simp: Let_def split: sum.splits)
    qed
  qed
next
  case (13 r sourceFile k v kvs functionParams s)
  then show ?case
    by (fastforce split: prod.splits sum.splits intro: cacheFrame_trans)
qed (simp_all add: frame_refl)

lemma createResolvedSymbol_frame:
  "createResolvedSymbol r y md s = (res, s') \<Longrightarrow> cacheFrame s s'"
  by (auto simp: createResolvedSymbol_def split: prod.splits sum.splits dest: visit_frame(1))

lemma createResolvedSymbol_symbol:
  "createResolvedSymbol r y md s = (Inr rs, s') \<Longrightarrow> symbol rs = y"
  by (auto simp: createResolvedSymbol_def split: prod.splits sum.splits)

lemma getModuleMetadata_frame:
  "getModuleMetadata r f s = (res, s') \<Longrightarrow> frame s s'"
  by (auto simp: getModuleMetadata_def Let_def frame_def reportError_def
      split: option.splits if_splits prod.splits sum.splits)

lemma getModuleMetadata_agrees:
  "getModuleMetadata r f s = (res, s') \<Longrightarrow> cacheAgrees r s \<Longrightarrow>
     cacheAgrees r s' \<and> (\<forall>md. res = Inr md \<longrightarrow> md = loadModuleMetadata r f)"
  by (auto simp: getModuleMetadata_def Let_def cacheAgrees_def reportError_def
      split: option.splits if_splits prod.splits sum.splits)

lemma grows_refl: "grows r s s"
  by (simp add: grows_def)

lemma grows_trans:
  assumes "grows r s s'" and "grows r s' s''"
  shows "grows r s s''"
proof -
  from assms have "resolvedFilePaths s \<subseteq> resolvedFilePaths s''"
    unfolding grows_def by (elim conjE) (rule subset_trans)
  moreover from assms have
    "fst ` set (resolvedSymbols s) \<subseteq> fst ` set (resolvedSymbols s'')"
    unfolding grows_def by (elim conjE) (rule subset_trans)
  moreover from assms have "cacheInv s \<longrightarrow> cacheInv s''"
    and "cacheAgrees r s \<longrightarrow> cacheAgrees r s''"
    and "\<forall>f md. metadataCache s f = Some md \<longrightarrow> metadataCache s'' f = Some md"
    by (simp_all add: grows_def)
  ultimately show ?thesis by (simp add: grows_def)
qed

lemma cacheFrame_grows: "cacheFrame s s' \<Longrightarrow> grows r s s'"
  by (simp add: grows_def cacheFrame_def frame_def cacheInv_def cacheAgrees_def)

lemma localTo_append: "localTo file (xs @ ys) = (localTo file xs \<and> localTo file ys)"
  by (auto simp: localTo_def)

lemma declarationsLoop_result:
  "declarationsLoop r file decls names resolved s = (res, s') \<Longrightarrow>
     cacheFrame s s' \<and>
     (\<forall>resolved'. res = Inr resolved' \<longrightarrow>
        (\<exists>new. resolved' = resolved @ new \<and>
               map symbol new = map (\<lambda>n. getStaticSymbol file n []) names))"
proof (induction names arbitrary: resolved s)
  case Nil
  then show ?case by (auto simp: frame_refl)
next
  case (Cons n names)
  show ?case
  proof (cases "createResolvedSymbol r (getStaticSymbol file n []) (getProp decls n) s")
    case (Pair a s1)
    from createResolvedSymbol_frame[OF Pair] have f1: "cacheFrame s s1" .
    show ?thesis
    proof (cases a)
      case (Inl e)
      then show ?thesis using Cons.prems Pair f1 by (auto simp: Let_def)
    next
      case (Inr rs)
      with Cons.prems Pair have
        rest: "declarationsLoop r file decls names (resolved @ [rs]) s1 = (res, s')"
        by (simp add: Let_def)
      from createResolvedSymbol_symbol Pair Inr
      have sym: "symbol rs = getStaticSymbol file n []" by blast
      from Cons.IH[OF rest] f1 sym show ?thesis
        by (auto intro: cacheFrame_trans)
    qed
  qed
qed

lemma exportLoop_result:
  "exportLoop r file fromM es resolved s = (res, s') \<Longrightarrow>
     cacheFrame s s' \<and>
     (\<forall>resolved'. res = Inr resolved' \<longrightarrow>
        (\<exists>new. resolved' = resolved @ new \<and> localTo file new))"
proof (induction es arbitrary: resolved s)
  case Nil
  then show ?case by (auto simp: frame_refl localTo_def)
next
  case (Cons e es)
  show ?case
  proof (cases "resolveModule r fromM file s")
    case (Pair a s1)
    from resolveModule_frame[OF Pair] have f1: "cacheFrame s s1" .
    show ?thesis
    proof (cases a)
      case (Inl x)
      then show ?thesis using Cons.prems Pair f1 by (auto simp: Let_def)
    next
      case (Inr p)
      show ?thesis
      proof (cases "isPath p")
        case True
        let ?rs = "\<lparr>symbol = getStaticSymbol file
                      (case e of ExportName n \<Rightarrow> n | ExportAs n a \<Rightarrow> a) [],
                    metadata = VSym (getStaticSymbol (the p)
                      (case e of ExportName n \<Rightarrow> n | ExportAs n a \<Rightarrow> n) [])\<rparr>"
        from Cons.prems Pair Inr True have
          rest: "exportLoop r file fromM es (resolved @ [?rs]) s1 = (res, s')"
          by (cases e) (simp_all add: Let_def)
        from Cons.IH[OF rest] f1 show ?thesis
          by (auto intro: cacheFrame_trans simp: localTo_def getStaticSymbol_def)
      next
        case False
        with Cons.prems Pair Inr have
          rest: "exportLoop r file fromM es resolved s1 = (res, s')"
          by (simp add: Let_def)
        from Cons.IH[OF rest] f1 show ?thesis
          by (auto intro: cacheFrame_trans)
      qed
    qed
  qed
qed

lemma wildcardAliases_localTo: "localTo file (wildcardAliases file nested)"
  by (simp add: localTo_def wildcardAliases_def getStaticSymbol_def)

lemma mapSet_set:
  "set (mapSet k v m) \<subseteq> insert (k, v) (set m)"
  by (induction m) (auto split: if_splits)

lemma map_of_mapSet: "map_of (mapSet k v m) = (map_of m)(k \<mapsto> v)"
  by (induction m) auto

lemma mapSet_keys: "fst ` set (mapSet k v m) = insert k (fst ` set m)"
proof -
  have "dom (map_of (mapSet k v m)) = insert k (dom (map_of m))"
    by (simp add: map_of_mapSet)
  then show ?thesis by (simp add: dom_map_of_conv_image_fst)
qed

lemma fold_mapSet_keys:
  "fst ` set (fold (\<lambda>rs. mapSet (symbol rs) rs) resolved m) =
     fst ` set m \<union> symbol ` set resolved"
  by (induction resolved arbitrary: m) (auto simp: mapSet_keys)

lemma fold_mapSet_set:
  "set (fold (\<lambda>rs. mapSet (symbol rs) rs) resolved m) \<subseteq>
     set m \<union> (\<lambda>rs. (symbol rs, rs)) ` set resolved"
proof (induction resolved arbitrary: m)
  case Nil
  then show ?case by simp
next
  case (Cons rs resolved)
  from Cons.IH[of "mapSet (symbol rs) rs m"] mapSet_set[of "symbol rs" rs m]
  show ?case by auto
qed

lemma registerAll_fields:
  "resolvedFilePaths (registerAll resolved s) = resolvedFilePaths s"
  "metadataCache (registerAll resolved s) = metadataCache s"
  "fst ` set (resolvedSymbols (registerAll resolved s)) =
     fst ` set (resolvedSymbols s) \<union> symbol ` set resolved"
  by (simp_all add: registerAll_def fold_mapSet_keys)

lemma registerAll_grows:
  "localTo file resolved \<Longrightarrow> grows r s (registerAll resolved s)"
  using fold_mapSet_set[of resolved "resolvedSymbols s"]
    fold_mapSet_keys[of resolved "resolvedSymbols s"]
  by (fastforce simp: grows_def cacheInv_def cacheAgrees_def registerAll_def localTo_def)

lemma insert_visited_grows:
  "grows r s (s\<lparr>resolvedFilePaths := insert file (resolvedFilePaths s)\<rparr>)"
  by (auto simp: grows_def cacheInv_def cacheAgrees_def)

lemma getModuleMetadata_keeps:
  "getModuleMetadata r f s = (res, s') \<Longrightarrow> metadataCache s g = Some md \<Longrightarrow>
     metadataCache s' g = Some md"
  by (auto simp: getModuleMetadata_def Let_def reportError_def
      split: option.splits if_splits prod.splits sum.splits)

lemma getModuleMetadata_grows:
  "getModuleMetadata r f s = (res, s') \<Longrightarrow> grows r s s'"
  using getModuleMetadata_frame[of r f s res s'] getModuleMetadata_agrees[of r f s res s']
    getModuleMetadata_keeps[of r f s res s']
  by (auto simp: grows_def frame_def cacheInv_def)

lemma grows_visited: "grows r s s' \<Longrightarrow> f \<in> resolvedFilePaths s \<Longrightarrow> f \<in> resolvedFilePaths s'"
  by (auto simp: grows_def)

lemma declarations_result:
  assumes "(case declarations md of
              None \<Rightarrow> (Inr [], s)
            | Some decls \<Rightarrow> declarationsLoop r file decls (map fst decls) [] s) = (res, s')"
  shows "cacheFrame s s' \<and>
     (\<forall>resolved. res = Inr resolved \<longrightarrow>
        localTo file resolved \<and>
        map symbol resolved =
          (case declarations md of
             None \<Rightarrow> []
           | Some decls \<Rightarrow> map (\<lambda>n. getStaticSymbol file n []) (map fst decls)))"
proof (cases "declarations md")
  case None
  then show ?thesis using assms by (auto simp: frame_refl localTo_def)
next
  case (Some decls)
  with assms have "declarationsLoop r file decls (map fst decls) [] s = (res, s')" by simp
  from declarationsLoop_result[OF this] have fr: "cacheFrame s s'" and
    syms: "\<And>resolved. res = Inr resolved \<Longrightarrow>
             map symbol resolved = map (\<lambda>n. getStaticSymbol file n []) (map fst decls)"
    by auto
  have "localTo file resolved" if "res = Inr resolved" for resolved
    unfolding localTo_def
  proof
    fix rs assume "rs \<in> set resolved"
    then have "symbol rs \<in> set (map symbol resolved)" by simp
    with syms[OF that] obtain n where "symbol rs = getStaticSymbol file n []" by auto
    then show "members (symbol rs) = [] \<and> filePath (symbol rs) = file"
      by (simp add: getStaticSymbol_def)
  qed
  with fr syms Some show ?thesis by auto
qed

lemma walker_grows:
  "createSymbolsOf r n f s = Some (res1, s1) \<Longrightarrow>
     grows r s s1 \<and> f \<in> resolvedFilePaths s1"
  "moduleExportsLoop r n f es resolved s = Some (res2, s2) \<Longrightarrow>
     grows r s s2 \<and>
     (\<forall>resolved'. res2 = Inr resolved' \<longrightarrow>
        (\<exists>new. resolved' = resolved @ new \<and> localTo f new))"
  "getSymbolsOf r n f s = Some (res3, s3) \<Longrightarrow>
     grows r s s3 \<and> f \<in> resolvedFilePaths s3"
proof (induction r n f s and r n f es resolved s and r n f s
    arbitrary: res1 s1 and res2 s2 and res3 s3
    rule: createSymbolsOf_moduleExportsLoop_getSymbolsOf.induct)
  case (1 r f s)
  then show ?case by simp
next
  case (2 r n f s)
  show ?case
  proof (cases "f \<in> resolvedFilePaths s")
    case True
    then show ?thesis using "2.prems" by (auto simp: grows_refl)
  next
    case False
    let ?s0 = "s\<lparr>resolvedFilePaths := insert f (resolvedFilePaths s)\<rparr>"
    have g0: "grows r s ?s0" by (rule insert_visited_grows)
    have v0: "f \<in> resolvedFilePaths ?s0" by simp
    obtain a sA where gm: "getModuleMetadata r f ?s0 = (a, sA)"
      by (cases "getModuleMetadata r f ?s0") auto
    from getModuleMetadata_grows[OF gm] have gA: "grows r ?s0 sA" .
    show ?thesis
    proof (cases a)
      case (Inl e)
      with "2.prems" False gm have "s1 = sA" by (simp add: Let_def)
      then show ?thesis using g0 gA v0 by (auto intro: grows_trans grows_visited)
    next
      case (Inr md)
      obtain b sB where dl: "(case declarations md of
              None \<Rightarrow> (Inr [], sA)
            | Some decls \<Rightarrow> declarationsLoop r f decls (map fst decls) [] sA) = (b, sB)"
        by (cases "(case declarations md of
              None \<Rightarrow> (Inr [], sA)
            | Some decls \<Rightarrow> declarationsLoop r f decls (map fst decls) [] sA)") auto
      from declarations_result[OF dl] have fB: "cacheFrame sA sB"
        and lB: "\<And>resolved. b = Inr resolved \<Longrightarrow> localTo f resolved"
        by auto
      from fB have gB: "grows r sA sB" by (rule cacheFrame_grows)
      have gsB: "grows r s sB" using g0 gA gB by (blast intro: grows_trans)
      have vB: "f \<in> resolvedFilePaths sB"
        using v0 gA gB by (blast intro: grows_visited)
      show ?thesis
      proof (cases b)
        case (Inl e)
        with "2.prems" False gm Inr dl have "s1 = sB" by (simp add: Let_def)
        then show ?thesis using gsB vB by simp
      next
        case resolved: (Inr resolved)
        from lB[OF resolved] have lr: "localTo f resolved" .
        show ?thesis
        proof (cases "exports md")
          case None
          with "2.prems" False gm Inr dl resolved have "s1 = registerAll resolved sB"
            by (simp add: Let_def)
          then show ?thesis using gsB vB registerAll_grows[OF lr, of r sB]
            by (auto intro: grows_trans simp: registerAll_fields)
        next
          case (Some moduleExports)
          show ?thesis
          proof (cases "moduleExportsLoop r n f moduleExports resolved sB")
            case None
            with "2.prems" False gm Inr dl resolved Some show ?thesis
              by (simp add: Let_def)
          next
            case loop: (Some cs)
            obtain c sC where cs: "cs = (c, sC)" by (cases cs)
            from "2.IH"[OF False refl gm[symmetric] Inr dl[symmetric] resolved Some
                loop[unfolded cs]]
            have gC: "grows r sB sC" and
              ext: "\<And>resolved'. c = Inr resolved' \<Longrightarrow>
                      \<exists>new. resolved' = resolved @ new \<and> localTo f new"
              by auto
            have gsC: "grows r s sC" using gsB gC by (blast intro: grows_trans)
            have vC: "f \<in> resolvedFilePaths sC" using vB gC by (blast intro: grows_visited)
            show ?thesis
            proof (cases c)
              case (Inl e)
              with "2.prems" False gm Inr dl resolved Some loop cs have "s1 = sC"
                by (simp add: Let_def)
              then show ?thesis using gsC vC by simp
            next
              case r': (Inr resolved')
              from ext[OF r'] lr have lr': "localTo f resolved'"
                by (auto simp: localTo_append)
              from "2.prems" False gm Inr dl resolved Some loop cs r'
              have "s1 = registerAll resolved' sC" by (simp add: Let_def)
              then show ?thesis using gsC vC registerAll_grows[OF lr', of r sC]
                by (auto intro: grows_trans simp: registerAll_fields)
            qed
          qed
        qed
      qed
    qed
  qed
next
  case (3 r n f resolved s)
  then show ?case by (auto simp: grows_refl localTo_def)
next
  case (4 r n f moduleExport rest resolved s)
  show ?case
  proof (cases "exportList moduleExport")
    case (Some exportSymbols)
    obtain a sA where el:
      "exportLoop r f (fromModule moduleExport) exportSymbols resolved s = (a, sA)"
      by (cases "exportLoop r f (fromModule moduleExport) exportSymbols resolved s") auto
    from exportLoop_result[OF el] have fA: "cacheFrame s sA" and
      ext: "\<And>resolved'. a = Inr resolved' \<Longrightarrow>
              \<exists>new. resolved' = resolved @ new \<and> localTo f new"
      by auto
    from fA have gA: "grows r s sA" by (rule cacheFrame_grows)
    show ?thesis
    proof (cases a)
      case (Inl e)
      with "4.prems" Some el gA show ?thesis by auto
    next
      case (Inr resolved')
      with "4.prems" Some el have
        rest: "moduleExportsLoop r n f rest resolved' sA = Some (res2, s2)"
        by simp
      from "4.IH"(4)[OF Some el[symmetric] Inr rest] ext[OF Inr] gA show ?thesis
        by (auto intro: grows_trans simp: localTo_append)
    qed
  next
    case None
    obtain a sA where rm: "resolveModule r (fromModule moduleExport) f s = (a, sA)"
      by (cases "resolveModule r (fromModule moduleExport) f s") auto
    from resolveModule_frame[OF rm] have gA: "grows r s sA" by (rule cacheFrame_grows)
    show ?thesis
    proof (cases a)
      case (Inl e)
      with "4.prems" None rm gA show ?thesis by auto
    next
      case (Inr p)
      show ?thesis
      proof (cases "isPath p")
        case False
        with "4.prems" None rm Inr have
          rest: "moduleExportsLoop r n f rest resolved sA = Some (res2, s2)"
          by simp
        from "4.IH"(3)[OF None rm[symmetric] Inr False rest] gA show ?thesis
          by (auto intro: grows_trans)
      next
        case True
        show ?thesis
        proof (cases "getSymbolsOf r n (the p) sA")
          case None
          with "4.prems" \<open>exportList moduleExport = None\<close> rm Inr True show ?thesis by simp
        next
          case gs: (Some bs)
          obtain b sB where bs: "bs = (b, sB)" by (cases bs)
          from "4.IH"(1)[OF None rm[symmetric] Inr True gs[unfolded bs]]
          have gB: "grows r sA sB" by simp
          have gsB: "grows r s sB" using gA gB by (blast intro: grows_trans)
          show ?thesis
          proof (cases b)
            case (Inl e)
            with "4.prems" \<open>exportList moduleExport = None\<close> rm Inr True gs bs gsB
            show ?thesis by auto
          next
            case nested: (Inr nestedExports)
            with "4.prems" \<open>exportList moduleExport = None\<close> rm Inr True gs bs have
              rest: "moduleExportsLoop r n f rest
                       (resolved @ wildcardAliases f nestedExports) sB = Some (res2, s2)"
              by simp
            from "4.IH"(2)[OF \<open>exportList moduleExport = None\<close> rm[symmetric] Inr True gs
                bs[symmetric] nested rest] gsB wildcardAliases_localTo[of f nestedExports]
            show ?thesis
              by (auto intro: grows_trans simp: localTo_append)
          qed
        qed
      qed
    qed
  qed
next
  case (5 r n f s)
  show ?case
  proof (cases "createSymbolsOf r n f s")
    case None
    with "5.prems" show ?thesis by simp
  next
    case (Some as)
    obtain a sA where as: "as = (a, sA)" by (cases as)
    from "5.IH"[OF Some[unfolded as]] have "grows r s sA \<and> f \<in> resolvedFilePaths sA" .
    moreover from "5.prems" Some as have "s3 = sA" by (cases a) auto
    ultimately show ?thesis by simp
  qed
qed

subsection \<open>The walker returns\<close>

lemma resolveModule_path:
  "resolveModule r mo f s = (Inr p, s') \<Longrightarrow> isPath p \<Longrightarrow>
     moduleNameToFileName (host r) mo f = Returns p"
  by (auto simp: resolveModule_def Let_def isPath_def
      split: hostCall.splits thrown.splits prod.splits sum.splits)

lemma grows_card:
  assumes "finite F" and "grows r s s'" and "card (F - resolvedFilePaths s) < n"
  shows "card (F - resolvedFilePaths s') < n"
proof -
  from assms(2) have "F - resolvedFilePaths s' \<subseteq> F - resolvedFilePaths s"
    by (auto simp: grows_def)
  with assms(1) have "card (F - resolvedFilePaths s') \<le> card (F - resolvedFilePaths s)"
    by (intro card_mono) auto
  with assms(3) show ?thesis by simp
qed

lemma grows_agrees: "grows r s s' \<Longrightarrow> cacheAgrees r s \<Longrightarrow> cacheAgrees r s'"
  by (simp add: grows_def)

lemma walker_returns:
  "finite F \<Longrightarrow> closedUnder r F \<Longrightarrow> f \<in> F \<Longrightarrow> cacheAgrees r s \<Longrightarrow> card (F - resolvedFilePaths s) < n \<Longrightarrow>
     createSymbolsOf r n f s \<noteq> None"
  "finite F \<Longrightarrow> closedUnder r F \<Longrightarrow> f \<in> F \<Longrightarrow> cacheAgrees r s \<Longrightarrow>
   card (F - resolvedFilePaths s) < n \<Longrightarrow> wildcardsInto r F f es \<Longrightarrow>
     moduleExportsLoop r n f es resolved s \<noteq> None"
  "finite F \<Longrightarrow> closedUnder r F \<Longrightarrow> f \<in> F \<Longrightarrow> cacheAgrees r s \<Longrightarrow>
   card (F - resolvedFilePaths s) < n \<Longrightarrow> getSymbolsOf r n f s \<noteq> None"
proof (induction r n f s and r n f es resolved s and r n f s
    rule: createSymbolsOf_moduleExportsLoop_getSymbolsOf.induct)
  case (1 r f s)
  then show ?case by simp
next
  case (2 r n f s)
  note fin = "2.prems"(1) and closed = "2.prems"(2)
  show ?case
  proof (cases "f \<in> resolvedFilePaths s")
    case True
    then show ?thesis by simp
  next
    case False
    let ?s0 = "s\<lparr>resolvedFilePaths := insert f (resolvedFilePaths s)\<rparr>"
    have a0: "cacheAgrees r ?s0" using "2.prems"(4) by (simp add: cacheAgrees_def)
    have "F - resolvedFilePaths ?s0 = (F - resolvedFilePaths s) - {f}" by auto
    moreover have inF: "f \<in> F - resolvedFilePaths s" using False "2.prems"(3) by simp
    moreover from inF fin have "0 < card (F - resolvedFilePaths s)"
      by (auto simp: card_gt_0_iff)
    ultimately have c0: "card (F - resolvedFilePaths ?s0) < n"
      using "2.prems"(5) fin by (simp add: card_Diff_singleton_if)
    obtain a sA where gm: "getModuleMetadata r f ?s0 = (a, sA)"
      by (cases "getModuleMetadata r f ?s0") auto
    from getModuleMetadata_grows[OF gm] have gA: "grows r ?s0 sA" .
    show ?thesis
    proof (cases a)
      case (Inl e)
      with False gm show ?thesis by (simp add: Let_def)
    next
      case (Inr md)
      from getModuleMetadata_agrees[OF gm a0] Inr have md: "md = loadModuleMetadata r f"
        by simp
      obtain b sB where dl: "(case declarations md of
              None \<Rightarrow> (Inr [], sA)
            | Some decls \<Rightarrow> declarationsLoop r f decls (map fst decls) [] sA) = (b, sB)"
        by (cases "(case declarations md of
              None \<Rightarrow> (Inr [], sA)
            | Some decls \<Rightarrow> declarationsLoop r f decls (map fst decls) [] sA)") auto
      from declarations_result[OF dl] have "cacheFrame sA sB" by simp
      then have gB: "grows r sA sB" by (rule cacheFrame_grows)
      have g0B: "grows r ?s0 sB" using gA gB by (rule grows_trans)
      show ?thesis
      proof (cases b)
        case (Inl e)
        with False gm Inr dl show ?thesis by (simp add: Let_def)
      next
        case resolved: (Inr resolved)
        show ?thesis
        proof (cases "exports md")
          case None
          with False gm Inr dl resolved show ?thesis by (simp add: Let_def)
        next
          case (Some moduleExports)
          from closed "2.prems"(3) have "wildcardsInto r F f
              (case exports (loadModuleMetadata r f) of None \<Rightarrow> [] | Some es \<Rightarrow> es)"
            by (simp add: closedUnder_def)
          with md Some have w: "wildcardsInto r F f moduleExports" by simp
          from "2.IH"[OF False refl gm[symmetric] Inr dl[symmetric] resolved Some
              fin closed "2.prems"(3) grows_agrees[OF g0B a0] grows_card[OF fin g0B c0] w]
          obtain c sC where
            "moduleExportsLoop r n f moduleExports resolved sB = Some (c, sC)"
            by auto
          with False gm Inr dl resolved Some show ?thesis
            by (cases c) (simp_all add: Let_def)
        qed
      qed
    qed
  qed
next
  case (3 r n f resolved s)
  then show ?case by simp
next
  case (4 r n f moduleExport rest resolved s)
  note fin = "4.prems"(1) and closed = "4.prems"(2)
  from "4.prems"(6) have wrest: "wildcardsInto r F f rest"
    by (simp add: wildcardsInto_def)
  show ?case
  proof (cases "exportList moduleExport")
    case (Some exportSymbols)
    obtain a sA where el:
      "exportLoop r f (fromModule moduleExport) exportSymbols resolved s = (a, sA)"
      by (cases "exportLoop r f (fromModule moduleExport) exportSymbols resolved s") auto
    from exportLoop_result[OF el] have "cacheFrame s sA" by simp
    then have gA: "grows r s sA" by (rule cacheFrame_grows)
    show ?thesis
    proof (cases a)
      case (Inl e)
      with Some el show ?thesis by simp
    next
      case (Inr resolved')
      from "4.IH"(4)[OF Some el[symmetric] Inr fin closed "4.prems"(3)
          grows_agrees[OF gA "4.prems"(4)] grows_card[OF fin gA "4.prems"(5)] wrest]
      show ?thesis using Some el Inr by simp
    qed
  next
    case None
    obtain a sA where rm: "resolveModule r (fromModule moduleExport) f s = (a, sA)"
      by (cases "resolveModule r (fromModule moduleExport) f s") auto
    from resolveModule_frame[OF rm] have gA: "grows r s sA" by (rule cacheFrame_grows)
    note aA = grows_agrees[OF gA "4.prems"(4)]
    note cA = grows_card[OF fin gA "4.prems"(5)]
    show ?thesis
    proof (cases a)
      case (Inl e)
      with None rm show ?thesis by simp
    next
      case (Inr p)
      show ?thesis
      proof (cases "isPath p")
        case False
        from "4.IH"(3)[OF None rm[symmetric] Inr False fin closed "4.prems"(3) aA cA wrest]
        show ?thesis using None rm Inr False by simp
      next
        case True
        from resolveModule_path[OF rm[unfolded Inr] True]
        have "moduleNameToFileName (host r) (fromModule moduleExport) f = Returns p" .
        with "4.prems"(6) None True have inF: "the p \<in> F"
          by (auto simp: wildcardsInto_def isPath_def split: option.splits)
        from "4.IH"(1)[OF None rm[symmetric] Inr True fin closed inF aA cA]
        obtain b sB where gs: "getSymbolsOf r n (the p) sA = Some (b, sB)" by auto
        from walker_grows(3)[OF gs] have gB: "grows r sA sB" by simp
        show ?thesis
        proof (cases b)
          case (Inl e)
          with None rm Inr True gs show ?thesis by simp
        next
          case nested: (Inr nestedExports)
          from "4.IH"(2)[OF None rm[symmetric] Inr True gs refl nested fin closed "4.prems"(3)
              grows_agrees[OF gB aA] grows_card[OF fin gB cA] wrest]
          show ?thesis using None rm Inr True gs nested by simp
        qed
      qed
    qed
  qed
next
  case (5 r n f s)
  from "5.IH"[OF "5.prems"] obtain a sA where "createSymbolsOf r n f s = Some (a, sA)"
    by auto
  then show ?case by (cases a) auto
qed

lemma getSymbolsOf_returns:
  assumes "finite F" and "closedUnder r F" and "f \<in> F" and "cacheAgrees r s"
    and "card F < n"
  shows "createSymbolsOf r n f s \<noteq> None" and "getSymbolsOf r n f s \<noteq> None"
proof -
  have "card (F - resolvedFilePaths s) \<le> card F"
    using assms(1) by (intro card_mono) auto
  with assms(5) have c: "card (F - resolvedFilePaths s) < n" by simp
  from walker_returns(1)[OF assms(1,2,3,4) c] show "createSymbolsOf r n f s \<noteq> None" .
  from walker_returns(3)[OF assms(1,2,3,4) c] show "getSymbolsOf r n f s \<noteq> None" .
qed

lemma newResolver_invariants: "cacheInv newResolver" "cacheAgrees r newResolver"
  by (simp_all add: cacheInv_def cacheAgrees_def newResolver_def)

lemmas eval_defs = getModuleMetadata_def loadModuleMetadata_def SUPPORTED_SCHEMA_VERSION_def
  createResolvedSymbol_def getProp_def getStaticSymbol_def resolveModule_def isPath_def
  registerAll_def collectSymbols_def newSet_def setAdd_def wildcardAliases_def
  newResolver_def noSummaries_def Let_def reportError_def


lemma setAdd_distinct: "distinct xs \<Longrightarrow> distinct (setAdd x xs)"
  by (simp add: setAdd_def)

lemma setAdd_set: "set (setAdd x xs) = insert x (set xs)"
  by (auto simp: setAdd_def)

lemma fold_setAdd:
  "distinct acc \<Longrightarrow>
     distinct (fold setAdd xs acc) \<and> set (fold setAdd xs acc) = set acc \<union> set xs"
  by (induction xs arbitrary: acc) (auto simp: setAdd_distinct setAdd_set)

lemma newSet_props: "distinct (newSet xs)" "set (newSet xs) = set xs"
  using fold_setAdd[of "[]" xs] by (simp_all add: newSet_def)

lemma fold_collect:
  "distinct acc \<Longrightarrow>
     distinct (fold (\<lambda>(k, v) symbols.
                 if filePath (symbol v) = f then setAdd (symbol v) symbols else symbols)
               entries acc) \<and>
     set (fold (\<lambda>(k, v) symbols.
                 if filePath (symbol v) = f then setAdd (symbol v) symbols else symbols)
               entries acc) =
       set acc \<union> {symbol v |k v. (k, v) \<in> set entries \<and> filePath (symbol v) = f}"
proof (induction entries arbitrary: acc)
  case Nil
  then show ?case by simp
next
  case (Cons e entries)
  obtain k v where e: "e = (k, v)" by (cases e)
  show ?case
  proof (cases "filePath (symbol v) = f")
    case True
    from Cons.IH[of "setAdd (symbol v) acc"] Cons.prems True e show ?thesis
      by (auto simp: setAdd_distinct setAdd_set)
  next
    case False
    from Cons.IH[of acc] Cons.prems False e show ?thesis by auto
  qed
qed

lemma collectSymbols_props:
  "distinct (collectSymbols r f s)"
  "set (collectSymbols r f s) =
     set (summarySymbolsOf (summaryResolver r) f) \<union>
     {symbol v |k v. (k, v) \<in> set (resolvedSymbols s) \<and> filePath (symbol v) = f}"
  using fold_collect[of "newSet (summarySymbolsOf (summaryResolver r) f)" f "resolvedSymbols s"]
  by (simp_all add: collectSymbols_def newSet_props)

lemma getSymbolsOf_Inr:
  "getSymbolsOf r n f s = Some (Inr symbols, s') \<Longrightarrow>
     createSymbolsOf r n f s = Some (Inr (), s') \<and> symbols = collectSymbols r f s'"
  by (auto split: option.splits prod.splits sum.splits)

lemma cycle_closed: "closedUnder cycleResolver {''/a.ts'', ''/b.ts''}"
  by (simp add: closedUnder_def wildcardsInto_def loadModuleMetadata_def cycleResolver_def
      cycleHost_def)

text \<open>
  Claim C1. Let a finite set of files hold every file that a wildcard directive of one of
  its files resolves to: the two files of a mutual wildcard cycle are such a set. Then
  \<open>getSymbolsOf\<close> for a file of the set returns, from every state whose metadata cache
  holds what the host offers (\<open>cacheAgrees\<close>), once the depth allowed exceeds the number
  of files; the handles it returns are pairwise different; and
  the walker entered again for a visited file returns at once and changes nothing, which
  is why the cycle ends: a file is marked visited before its directives are processed.
\<close>

theorem wildcard_cycle_terminates:
  assumes "finite F" and "closedUnder r F" and "A \<in> F" and "cacheAgrees r s"
    and "card F < n"
  shows "\<exists>res s'. getSymbolsOf r n A s = Some (res, s') \<and>
     (\<forall>symbols. res = Inr symbols \<longrightarrow> distinct symbols) \<and>
     (\<forall>f t m. f \<in> resolvedFilePaths t \<longrightarrow> createSymbolsOf r (Suc m) f t = Some (Inr (), t))"
proof -
  have "card (F - resolvedFilePaths s) \<le> card F"
    using assms(1) by (intro card_mono) auto
  with assms(5) have "card (F - resolvedFilePaths s) < n" by simp
  from walker_returns(3)[OF assms(1,2,3,4) this]
  obtain res s' where g: "getSymbolsOf r n A s = Some (res, s')" by auto
  have "distinct symbols" if "res = Inr symbols" for symbols
    using getSymbolsOf_Inr[of r n A s symbols s'] g that
    by (simp add: collectSymbols_props(1))
  with g show ?thesis by simp
qed

theorem wildcard_cycle_terminates_witness:
  "finite {''/a.ts'', ''/b.ts''} \<and> closedUnder cycleResolver {''/a.ts'', ''/b.ts''} \<and>
   cacheAgrees cycleResolver newResolver \<and> card {''/a.ts'', ''/b.ts''} < (3::nat) \<and>
   (\<exists>s'. getSymbolsOf cycleResolver 3 ''/a.ts'' newResolver =
      Some (Inr [getStaticSymbol ''/a.ts'' ''a'' [], getStaticSymbol ''/a.ts'' ''b'' []], s'))"
proof -
  have fin: "finite {''/a.ts'', ''/b.ts''}" by simp
  note closed = cycle_closed
  have agrees: "cacheAgrees cycleResolver newResolver"
    by (simp add: cacheAgrees_def newResolver_def)
  have card: "card {''/a.ts'', ''/b.ts''} < (3::nat)" by simp
  from wildcard_cycle_terminates[OF fin closed _ agrees card, of "''/a.ts''"]
  obtain res s' where g: "getSymbolsOf cycleResolver 3 ''/a.ts'' newResolver = Some (res, s')"
    by auto
  have "fst (the (getSymbolsOf cycleResolver (Suc (Suc (Suc 0))) ''/a.ts'' newResolver)) =
     Inr [getStaticSymbol ''/a.ts'' ''a'' [], getStaticSymbol ''/a.ts'' ''b'' []]"
    by (simp add: cycleResolver_def cycleHost_def eval_defs)
  with g have "res = Inr [getStaticSymbol ''/a.ts'' ''a'' [], getStaticSymbol ''/a.ts'' ''b'' []]"
    by (simp add: numeral_3_eq_3)
  with g fin closed agrees card show ?thesis by blast
qed

lemma getSymbolsOf_set:
  assumes "getSymbolsOf r n f s = Some (Inr symbols, s')" and "cacheInv s"
  shows "createSymbolsOf r n f s = Some (Inr (), s') \<and>
     set symbols =
       set (summarySymbolsOf (summaryResolver r) f) \<union>
       {k \<in> fst ` set (resolvedSymbols s'). filePath k = f}"
proof -
  from getSymbolsOf_Inr[OF assms(1)] have
    c: "createSymbolsOf r n f s = Some (Inr (), s')" and
    sy: "symbols = collectSymbols r f s'"
    by auto
  from walker_grows(1)[OF c] assms(2) have inv: "cacheInv s'" by (simp add: grows_def)
  have "{symbol v |k v. (k, v) \<in> set (resolvedSymbols s') \<and> filePath (symbol v) = f} =
        {k \<in> fst ` set (resolvedSymbols s'). filePath k = f}"
  proof (intro set_eqI iffI)
    fix x assume "x \<in> {symbol v |k v. (k, v) \<in> set (resolvedSymbols s') \<and>
                      filePath (symbol v) = f}"
    then obtain k v where x: "x = symbol v" and kv: "(k, v) \<in> set (resolvedSymbols s')"
      and fp: "filePath (symbol v) = f" by blast
    from inv kv have "symbol v = k" by (auto simp: cacheInv_def)
    with x kv fp show "x \<in> {k \<in> fst ` set (resolvedSymbols s'). filePath k = f}"
      by (auto intro: rev_image_eqI)
  next
    fix x assume "x \<in> {k \<in> fst ` set (resolvedSymbols s'). filePath k = f}"
    then obtain v where kv: "(x, v) \<in> set (resolvedSymbols s')" and fp: "filePath x = f"
      by auto
    from inv kv have "symbol v = x" by (auto simp: cacheInv_def)
    with kv fp show "x \<in> {symbol v |k v. (k, v) \<in> set (resolvedSymbols s') \<and>
                      filePath (symbol v) = f}" by blast
  qed
  with c sy show ?thesis by (simp add: collectSymbols_props(2))
qed

text \<open>
  Claim C9. \<open>getSymbolsOf\<close> returns for a file of a finite set of files closed under the
  wildcard directives, once the depth allowed exceeds the number of files. The handles it
  returns are exactly those the summary collaborator reports for the file together with
  the keys of the resolved-symbol cache whose declaring file is that file, the cache
  being the one the walker leaves after it has run for the file; keys of other files are
  left out. The cache at the start is one the resolver has built (\<open>cacheInv\<close>).
\<close>

theorem getSymbolsOf_union:
  assumes "cacheInv s"
  shows "(finite F \<and> closedUnder r F \<and> f \<in> F \<and> cacheAgrees r s \<and> card F < n \<longrightarrow>
        getSymbolsOf r n f s \<noteq> None) \<and>
     (\<forall>symbols s'. getSymbolsOf r n f s = Some (Inr symbols, s') \<longrightarrow>
        createSymbolsOf r n f s = Some (Inr (), s') \<and>
        set symbols =
          set (summarySymbolsOf (summaryResolver r) f) \<union>
          {k \<in> fst ` set (resolvedSymbols s'). filePath k = f})"
  using getSymbolsOf_returns(2)[of F r f s n] getSymbolsOf_set[of r n f s _ _, OF _ assms]
  by blast

theorem getSymbolsOf_union_witness:
  "cacheInv newResolver \<and> finite {''/a.ts'', ''/b.ts''} \<and>
   closedUnder cycleResolver {''/a.ts'', ''/b.ts''} \<and> cacheAgrees cycleResolver newResolver \<and>
   card {''/a.ts'', ''/b.ts''} < (3::nat) \<and>
   getSymbolsOf cycleResolver 3 ''/a.ts'' newResolver \<noteq> None \<and>
   fst (the (getSymbolsOf cycleResolver 3 ''/a.ts'' newResolver)) =
     Inr [getStaticSymbol ''/a.ts'' ''a'' [], getStaticSymbol ''/a.ts'' ''b'' []] \<and>
   map fst (resolvedSymbols (snd (the (getSymbolsOf cycleResolver 3 ''/a.ts'' newResolver)))) =
     [getStaticSymbol ''/b.ts'' ''b'' [], getStaticSymbol ''/a.ts'' ''a'' [],
      getStaticSymbol ''/a.ts'' ''b'' []] \<and>
   set [getStaticSymbol ''/a.ts'' ''a'' [], getStaticSymbol ''/a.ts'' ''b'' []] =
     set (summarySymbolsOf (summaryResolver cycleResolver) ''/a.ts'') \<union>
     {k \<in> fst ` set (resolvedSymbols
                      (snd (the (getSymbolsOf cycleResolver 3 ''/a.ts'' newResolver)))).
      filePath k = ''/a.ts''}"
proof -
  let ?g = "getSymbolsOf cycleResolver 3 ''/a.ts'' newResolver"
  let ?symbols = "[getStaticSymbol ''/a.ts'' ''a'' [], getStaticSymbol ''/a.ts'' ''b'' []]"
  note inv = newResolver_invariants(1) and agrees = newResolver_invariants(2)[of cycleResolver]
  have fin: "finite {''/a.ts'', ''/b.ts''}" and card: "card {''/a.ts'', ''/b.ts''} < (3::nat)"
    by simp_all
  note inst = getSymbolsOf_union[OF inv, where F = "{''/a.ts'', ''/b.ts''}"
      and r = cycleResolver and f = "''/a.ts''" and n = 3]
  from inst fin cycle_closed agrees card have ret: "?g \<noteq> None" by simp
  have res: "fst (the ?g) = Inr ?symbols"
    by (simp add: numeral_3_eq_3 cycleResolver_def cycleHost_def eval_defs)
  have keys: "map fst (resolvedSymbols (snd (the ?g))) =
     [getStaticSymbol ''/b.ts'' ''b'' [], getStaticSymbol ''/a.ts'' ''a'' [],
      getStaticSymbol ''/a.ts'' ''b'' []]"
    by (simp add: numeral_3_eq_3 cycleResolver_def cycleHost_def eval_defs)
  from ret res have g: "?g = Some (Inr ?symbols, snd (the ?g))" by (cases ?g) auto
  from inst g have "set ?symbols =
     set (summarySymbolsOf (summaryResolver cycleResolver) ''/a.ts'') \<union>
     {k \<in> fst ` set (resolvedSymbols (snd (the ?g))). filePath k = ''/a.ts''}"
    by blast
  with inv fin cycle_closed agrees card ret res keys show ?thesis by blast
qed

subsection \<open>Resolving handles\<close>

lemma resolveSymbol_base:
  "members y = [] \<Longrightarrow>
   resolveSymbol pr r n y s =
     (case resolveSymbolFromSummary r y of
        Some result \<Rightarrow> Some (Inr (Some result), s)
      | None \<Rightarrow>
          (case createSymbolsOf r n (filePath y) s of
             None \<Rightarrow> None
           | Some (Inl e, s') \<Rightarrow> Some (Inl e, s')
           | Some (Inr u, s') \<Rightarrow> Some (Inr (map_of (resolvedSymbols s') y), s')))"
  by (simp add: resolveSymbol.simps)

lemma resolveSymbol_members:
  "members y \<noteq> [] \<Longrightarrow>
   resolveSymbol pr r n y s =
     (case resolveSymbol pr r n (getStaticSymbol (filePath y) (name y) []) s of
        None \<Rightarrow> None
      | Some (Inl e, s') \<Rightarrow> Some (Inl e, s')
      | Some (Inr None, s') \<Rightarrow> Some (Inr None, s')
      | Some (Inr (Some b), s') \<Rightarrow> Some (projectMembers pr y (metadata b), s'))"
  by (simp add: resolveSymbol.simps resolveSymbolMembers.simps)

lemma createSymbolsOf_visited:
  "createSymbolsOf r n f s = Some (res, s') \<Longrightarrow> createSymbolsOf r n f s' = Some (Inr (), s')"
proof -
  assume c: "createSymbolsOf r n f s = Some (res, s')"
  from walker_grows(1)[OF c] have "f \<in> resolvedFilePaths s'" by simp
  moreover from c obtain m where "n = Suc m" by (cases n) auto
  ultimately show ?thesis by simp
qed

lemma resolveSymbol_base_again:
  assumes "members y = []" and "resolveSymbol pr r n y s = Some (Inr x, s')"
  shows "resolveSymbol pr r n y s' = Some (Inr x, s')"
proof (cases "resolveSymbolFromSummary r y")
  case (Some result)
  from assms(2) have "x = Some result \<and> s' = s"
    by (simp add: resolveSymbol_base[OF assms(1)] Some)
  then show ?thesis by (simp add: resolveSymbol_base[OF assms(1)] Some)
next
  case None
  with assms obtain u where c: "createSymbolsOf r n (filePath y) s = Some (Inr u, s')"
    and x: "x = map_of (resolvedSymbols s') y"
    by (auto simp: resolveSymbol_base
        split: option.splits prod.splits sum.splits)
  from createSymbolsOf_visited[OF c] None x assms(1) show ?thesis
    by (simp add: resolveSymbol_base)
qed

lemma resolveSymbol_grows:
  "resolveSymbol pr r n y s = Some (res, s') \<Longrightarrow> grows r s s'"
proof -
  assume a: "resolveSymbol pr r n y s = Some (res, s')"
  have base: "grows r s s'" if "members b = []" "resolveSymbol pr r n b s = Some (res', s')"
    for b res'
    using that walker_grows(1)[of r n "filePath b" s _ s']
    by (auto simp: resolveSymbol_base grows_refl
        split: option.splits prod.splits sum.splits)
  show ?thesis
  proof (cases "members y = []")
    case True
    with a base show ?thesis by blast
  next
    case False
    let ?b = "getStaticSymbol (filePath y) (name y) []"
    have mb: "members ?b = []" by (simp add: getStaticSymbol_def)
    from a False obtain res' where "resolveSymbol pr r n ?b s = Some (res', s')"
      by (auto simp: resolveSymbol_members
          split: option.splits prod.splits sum.splits)
    with base[OF mb] show ?thesis by blast
  qed
qed

lemma resolveSymbol_returns:
  assumes "finite F" and "closedUnder r F" and "filePath y \<in> F" and "cacheAgrees r s"
    and "card F < n"
  shows "resolveSymbol pr r n y s \<noteq> None"
proof -
  have base: "resolveSymbol pr r n b s \<noteq> None" if "members b = []" "filePath b = filePath y"
    for b
    using that getSymbolsOf_returns(1)[OF assms(1,2,3,4,5)]
    by (auto simp: resolveSymbol_base split: option.splits prod.splits sum.splits)
  show ?thesis
  proof (cases "members y = []")
    case True
    with base show ?thesis by simp
  next
    case False
    let ?b = "getStaticSymbol (filePath y) (name y) []"
    have "members ?b = []" "filePath ?b = filePath y" by (simp_all add: getStaticSymbol_def)
    from base[OF this] False show ?thesis
      by (auto simp: resolveSymbol_members split: option.splits prod.splits sum.splits)
  qed
qed

lemma member_paths_frame:
  assumes "members y \<noteq> []" and "cacheInv s" and "resolveSymbol pr r n y s = Some (res, s')"
  shows "y \<notin> fst ` set (resolvedSymbols s') \<and>
     (\<forall>k \<in> fst ` set (resolvedSymbols s'). members k = []) \<and>
     (\<forall>x. res = Inr x \<longrightarrow> resolveSymbol pr r n y s' = Some (Inr x, s'))"
proof -
  from resolveSymbol_grows[OF assms(3)] assms(2) have inv: "cacheInv s'"
    by (simp add: grows_def)
  then have keys: "\<forall>k \<in> fst ` set (resolvedSymbols s'). members k = []"
    by (fastforce simp: cacheInv_def)
  with assms(1) have notin: "y \<notin> fst ` set (resolvedSymbols s')" by blast
  let ?b = "getStaticSymbol (filePath y) (name y) []"
  have mb: "members ?b = []" by (simp add: getStaticSymbol_def)
  have again: "resolveSymbol pr r n y s' = Some (Inr x, s')" if "res = Inr x" for x
  proof -
    from assms(1,3) that obtain xb where
      b: "resolveSymbol pr r n ?b s = Some (Inr xb, s')" and
      x: "Inr x = (case xb of None \<Rightarrow> Inr None | Some b \<Rightarrow> projectMembers pr y (metadata b))"
      by (auto simp: resolveSymbol_members
          split: option.splits prod.splits sum.splits)
    from resolveSymbol_base_again[OF mb b] x assms(1) show ?thesis
      by (auto simp: resolveSymbol_members split: option.splits)
  qed
  from notin keys again show ?thesis by blast
qed

text \<open>
  Claim C10. Resolving a handle with a non-empty member path returns, for a file of a
  finite set of files closed under the wildcard directives and a depth above the number
  of files. Started from a cache the resolver has built, it never puts that handle in the
  resolved-symbol cache: afterwards every key of the cache has an empty member path, so
  the handle is not among them. The projection is computed anew each time: resolving the
  same handle again in the state the first resolution left gives the same result and
  leaves the state, and with it the key set of the cache, exactly as it is.
\<close>

theorem member_paths_are_not_cached:
  assumes "members y \<noteq> []" and "cacheInv s"
  shows "(finite F \<and> closedUnder r F \<and> filePath y \<in> F \<and> cacheAgrees r s \<and> card F < n \<longrightarrow>
        resolveSymbol pr r n y s \<noteq> None) \<and>
     (\<forall>res s'. resolveSymbol pr r n y s = Some (res, s') \<longrightarrow>
        y \<notin> fst ` set (resolvedSymbols s') \<and>
        (\<forall>k \<in> fst ` set (resolvedSymbols s'). members k = []) \<and>
        (\<forall>x. res = Inr x \<longrightarrow> resolveSymbol pr r n y s' = Some (Inr x, s')))"
  using resolveSymbol_returns[of F r y s n pr] member_paths_frame[OF assms, of pr r n]
  by blast

lemmas member_eval = memberResolver_def memberHost_def eval_defs projectMembers_def
  resolveSymbolFromSummary_def resolveSymbol.simps resolveSymbolMembers.simps
  getField_def getIndex_def objectPrototype_def

lemma member_closed: "closedUnder memberResolver {''/c.ts''}"
  by (simp add: closedUnder_def wildcardsInto_def loadModuleMetadata_def memberResolver_def
      memberHost_def)

theorem member_paths_are_not_cached_witness:
  "members (getStaticSymbol ''/c.ts'' ''C'' [''foo'']) \<noteq> [] \<and> cacheInv newResolver \<and>
   finite {''/c.ts''} \<and> closedUnder memberResolver {''/c.ts''} \<and>
   filePath (getStaticSymbol ''/c.ts'' ''C'' [''foo'']) \<in> {''/c.ts''} \<and>
   cacheAgrees memberResolver newResolver \<and> card {''/c.ts''} < (2::nat) \<and>
   resolveSymbol objectPrototype memberResolver 2 (getStaticSymbol ''/c.ts'' ''C'' [''foo'']) newResolver
     \<noteq> None \<and>
   fst (the (resolveSymbol objectPrototype memberResolver 2 (getStaticSymbol ''/c.ts'' ''C'' [''foo''])
               newResolver)) =
     Inr (Some \<lparr>symbol = getStaticSymbol ''/c.ts'' ''C'' [''foo''], metadata = VNum 42\<rparr>) \<and>
   map fst (resolvedSymbols (snd (the (resolveSymbol objectPrototype memberResolver 2
              (getStaticSymbol ''/c.ts'' ''C'' [''foo'']) newResolver)))) =
     [getStaticSymbol ''/c.ts'' ''C'' [], getStaticSymbol ''/c.ts'' ''config'' []] \<and>
   resolveSymbol objectPrototype memberResolver 2 (getStaticSymbol ''/c.ts'' ''C'' [''foo''])
     (snd (the (resolveSymbol objectPrototype memberResolver 2 (getStaticSymbol ''/c.ts'' ''C'' [''foo''])
                  newResolver))) =
     Some (Inr (Some \<lparr>symbol = getStaticSymbol ''/c.ts'' ''C'' [''foo''],
                       metadata = VNum 42\<rparr>),
           snd (the (resolveSymbol objectPrototype memberResolver 2 (getStaticSymbol ''/c.ts'' ''C'' [''foo''])
                       newResolver)))"
proof -
  let ?y = "getStaticSymbol ''/c.ts'' ''C'' [''foo'']"
  let ?g = "resolveSymbol objectPrototype memberResolver 2 ?y newResolver"
  let ?x = "Some \<lparr>symbol = ?y, metadata = VNum 42\<rparr>"
  have m: "members ?y \<noteq> []" and fy: "filePath ?y \<in> {''/c.ts''}"
    by (simp_all add: getStaticSymbol_def)
  note inv = newResolver_invariants(1) and agrees = newResolver_invariants(2)[of memberResolver]
  have fin: "finite {''/c.ts''}" and card: "card {''/c.ts''} < (2::nat)" by simp_all
  note inst = member_paths_are_not_cached[OF m inv, where F = "{''/c.ts''}"
      and r = memberResolver and n = 2]
  from inst fin member_closed fy agrees card have ret: "?g \<noteq> None" by simp
  have res: "fst (the ?g) = Inr ?x"
    by (simp add: numeral_2_eq_2 member_eval)
  have keys: "map fst (resolvedSymbols (snd (the ?g))) =
     [getStaticSymbol ''/c.ts'' ''C'' [], getStaticSymbol ''/c.ts'' ''config'' []]"
    by (simp add: numeral_2_eq_2 member_eval)
  from ret res have g: "?g = Some (Inr ?x, snd (the ?g))" by (cases ?g) auto
  from inst g have "resolveSymbol objectPrototype memberResolver 2 ?y (snd (the ?g)) =
      Some (Inr ?x, snd (the ?g))" by blast
  with m inv fin member_closed fy agrees card ret res keys show ?thesis by blast
qed

text \<open>
  Claim C7. When the base handle (file, C) resolves to metadata of kind \<open>class\<close> with a
  \<open>statics\<close> mapping, and \<open>m\<close> is a key of that mapping, resolving the handle
  (file, C, [m]) returns the resolved symbol whose metadata is \<open>statics[m]\<close>, in the state
  the resolution of the base leaves.
\<close>

theorem class_static_member:
  assumes "resolveSymbol pr r n (getStaticSymbol f c []) s = Some (Inr (Some b), s')"
    and "metadata b = VMap cm" and "getProp cm ''__symbolic'' = VStr ''class''"
    and "getProp cm ''statics'' = VMap statics" and "map_of statics m = Some v"
  shows "resolveSymbol pr r n (getStaticSymbol f c [m]) s =
     Some (Inr (Some \<lparr>symbol = getStaticSymbol f c [m], metadata = v\<rparr>), s')"
proof -
  let ?y = "getStaticSymbol f c [m]"
  have y: "members ?y \<noteq> []" "getStaticSymbol (filePath ?y) (name ?y) [] = getStaticSymbol f c []"
    by (simp_all add: getStaticSymbol_def)
  have "projectMembers pr ?y (metadata b) = Inr (Some \<lparr>symbol = ?y, metadata = v\<rparr>)"
    using assms(2-5)
    by (simp add: projectMembers_def getStaticSymbol_def getProp_def getField_def getIndex_def)
  with assms(1) y show ?thesis by (simp add: resolveSymbol_members)
qed

theorem class_static_member_witness:
  "fst (the (resolveSymbol objectPrototype memberResolver 1 (getStaticSymbol ''/c.ts'' ''C'' []) newResolver)) =
     Inr (Some \<lparr>symbol = getStaticSymbol ''/c.ts'' ''C'' [],
                 metadata = VMap [(''__symbolic'', VStr ''class''),
                                  (''statics'', VMap [(''foo'', VNum 42)])]\<rparr>) \<and>
   fst (the (resolveSymbol objectPrototype memberResolver 1 (getStaticSymbol ''/c.ts'' ''C'' [''foo''])
               newResolver)) =
     Inr (Some \<lparr>symbol = getStaticSymbol ''/c.ts'' ''C'' [''foo''], metadata = VNum 42\<rparr>)"
proof -
  let ?cm = "[(''__symbolic'', VStr ''class''), (''statics'', VMap [(''foo'', VNum 42)])]"
  let ?b = "\<lparr>symbol = getStaticSymbol ''/c.ts'' ''C'' [], metadata = VMap ?cm\<rparr>"
  let ?g = "resolveSymbol objectPrototype memberResolver 1 (getStaticSymbol ''/c.ts'' ''C'' []) newResolver"
  have res: "fst (the ?g) = Inr (Some ?b)" by (simp add: member_eval)
  have "?g \<noteq> None" by (simp add: member_eval)
  with res have g: "?g = Some (Inr (Some ?b), snd (the ?g))" by (cases ?g) auto
  have 1: "metadata ?b = VMap ?cm" and 2: "getProp ?cm ''__symbolic'' = VStr ''class''"
    and 3: "getProp ?cm ''statics'' = VMap [(''foo'', VNum 42)]"
    and 4: "map_of [(''foo'', VNum 42)] ''foo'' = Some (VNum 42)"
    by (simp_all add: getProp_def)
  from class_static_member[OF g 1 2 3 4] res show ?thesis by simp
qed







































subsection \<open>The metadata store\<close>

lemma maxVersionLoop_keeps:
  "\<forall>md \<in> set mds. version md \<le> mv \<Longrightarrow> maxVersionLoop mds mv cur = cur"
  by (induction mds arbitrary: mv cur) auto

lemma maxVersionLoop_first_max:
  "i < length mds \<Longrightarrow> mv < version (mds ! i) \<Longrightarrow>
   \<forall>j < length mds. version (mds ! j) \<le> version (mds ! i) \<Longrightarrow>
   \<forall>j < i. version (mds ! j) < version (mds ! i) \<Longrightarrow>
     maxVersionLoop mds mv cur = Some (mds ! i)"
proof (induction mds arbitrary: i mv cur)
  case Nil
  then show ?case by simp
next
  case (Cons md mds)
  show ?case
  proof (cases i)
    case 0
    from Cons.prems(3) 0 have "\<forall>md' \<in> set mds. version md' \<le> version md"
      by (auto simp: in_set_conv_nth) (metis Suc_less_eq nth_Cons_Suc)
    with Cons.prems(2) 0 show ?thesis by (simp add: maxVersionLoop_keeps)
  next
    case (Suc i')
    from Cons.prems(1) Suc have 1: "i' < length mds" by simp
    from Cons.prems(3) Suc have 3: "\<forall>j < length mds. version (mds ! j) \<le> version (mds ! i')"
      by auto
    from Cons.prems(4) Suc have 4: "\<forall>j < i'. version (mds ! j) < version (mds ! i')"
      by auto
    from Cons.prems(4) Suc have lt: "version md < version (mds ! i')" by auto
    show ?thesis
    proof (cases "mv < version md")
      case True
      with Cons.IH[OF 1 lt 3 4] Suc show ?thesis by simp
    next
      case False
      from Cons.prems(2) Suc have "mv < version (mds ! i')" by simp
      from Cons.IH[OF 1 this 3 4] False Suc show ?thesis by simp
    qed
  qed
qed

text \<open>
  Claim C5, as amended. On a miss of the metadata cache, \<open>getModuleMetadata\<close> keeps, of
  the documents the host offers, the first one with the highest version, provided that
  version is above \<open>-1\<close>: it returns that document, or raises the version mismatch when
  the version is not the supported one and there is no error recorder. When the host
  offers nothing, or no document with a version above \<open>-1\<close>, it returns the empty document
  at the supported version, whose declarations are empty.
\<close>

theorem highest_version_document:
  assumes "metadataCache s f = None"
  shows "(getMetadataFor (host r) f = Some mds \<and> i < length mds \<and> - 1 < version (mds ! i) \<and>
       (\<forall>j < length mds. version (mds ! j) \<le> version (mds ! i)) \<and>
       (\<forall>j < i. version (mds ! j) < version (mds ! i)) \<longrightarrow>
      fst (getModuleMetadata r f s) =
        (if version (mds ! i) = SUPPORTED_SCHEMA_VERSION \<or> errorRecorder r
         then Inr (mds ! i)
         else Inl (Error (errorMessage f (version (mds ! i)))))) \<and>
     (getMetadataFor (host r) f = None \<or>
      (\<exists>ds. getMetadataFor (host r) f = Some ds \<and> (\<forall>md \<in> set ds. version md \<le> - 1)) \<longrightarrow>
      fst (getModuleMetadata r f s) =
        Inr \<lparr>version = SUPPORTED_SCHEMA_VERSION, declarations = Some [], exports = None\<rparr>)"
proof (intro conjI impI)
  assume a: "getMetadataFor (host r) f = Some mds \<and> i < length mds \<and>
       - 1 < version (mds ! i) \<and>
       (\<forall>j < length mds. version (mds ! j) \<le> version (mds ! i)) \<and>
       (\<forall>j < i. version (mds ! j) < version (mds ! i))"
  then have "maxVersionLoop mds (- 1) None = Some (mds ! i)"
    by (intro maxVersionLoop_first_max) auto
  with a have "loadModuleMetadata r f = mds ! i"
    by (simp add: loadModuleMetadata_def)
  with assms show "fst (getModuleMetadata r f s) =
        (if version (mds ! i) = SUPPORTED_SCHEMA_VERSION \<or> errorRecorder r
         then Inr (mds ! i)
         else Inl (Error (errorMessage f (version (mds ! i)))))"
    by (simp add: getModuleMetadata_def reportError_def Let_def)
next
  assume "getMetadataFor (host r) f = None \<or>
      (\<exists>ds. getMetadataFor (host r) f = Some ds \<and> (\<forall>md \<in> set ds. version md \<le> - 1))"
  then have "loadModuleMetadata r f =
      \<lparr>version = SUPPORTED_SCHEMA_VERSION, declarations = Some [], exports = None\<rparr>"
    by (auto simp: loadModuleMetadata_def maxVersionLoop_keeps)
  with assms show "fst (getModuleMetadata r f s) =
        Inr \<lparr>version = SUPPORTED_SCHEMA_VERSION, declarations = Some [], exports = None\<rparr>"
    by (simp add: getModuleMetadata_def Let_def)
qed

theorem highest_version_document_witness:
  "metadataCache newResolver ''/many.ts'' = None \<and>
   fst (getModuleMetadata versionsResolver ''/many.ts'' newResolver) =
     Inr \<lparr>version = 3, declarations = Some [(''first'', VNum 3)], exports = None\<rparr> \<and>
   metadataCache newResolver ''/none.ts'' = None \<and>
   getMetadataFor (host versionsResolver) ''/none.ts'' = None \<and>
   fst (getModuleMetadata versionsResolver ''/none.ts'' newResolver) =
     Inr \<lparr>version = 3, declarations = Some [], exports = None\<rparr>"
proof -
  let ?mds = "[\<lparr>version = 1, declarations = Some [(''one'', VNum 1)], exports = None\<rparr>,
                \<lparr>version = 3, declarations = Some [(''first'', VNum 3)], exports = None\<rparr>,
                \<lparr>version = 2, declarations = Some [(''two'', VNum 2)], exports = None\<rparr>,
                \<lparr>version = 3, declarations = Some [(''second'', VNum 3)], exports = None\<rparr>]"
  have miss: "metadataCache newResolver ''/many.ts'' = None"
    and miss': "metadataCache newResolver ''/none.ts'' = None"
    by (simp_all add: newResolver_def)
  have docs: "getMetadataFor (host versionsResolver) ''/many.ts'' = Some ?mds"
    and none: "getMetadataFor (host versionsResolver) ''/none.ts'' = None"
    by (simp_all add: versionsResolver_def versionsHost_def)
  have sel: "(1::nat) < length ?mds \<and> - 1 < version (?mds ! 1) \<and>
       (\<forall>j < length ?mds. version (?mds ! j) \<le> version (?mds ! 1)) \<and>
       (\<forall>j < 1. version (?mds ! j) < version (?mds ! 1))"
    by (simp add: less_Suc_eq all_conj_distrib)
  from highest_version_document[OF miss, of versionsResolver ?mds 1] docs sel
  have "fst (getModuleMetadata versionsResolver ''/many.ts'' newResolver) =
     Inr \<lparr>version = 3, declarations = Some [(''first'', VNum 3)], exports = None\<rparr>"
    by (simp add: SUPPORTED_SCHEMA_VERSION_def)
  moreover from highest_version_document[OF miss', of versionsResolver ?mds 1] none
  have "fst (getModuleMetadata versionsResolver ''/none.ts'' newResolver) =
     Inr \<lparr>version = 3, declarations = Some [], exports = None\<rparr>"
    by (simp add: SUPPORTED_SCHEMA_VERSION_def)
  ultimately show ?thesis using miss miss' none by simp
qed

text \<open>
  Claim C5 as stated fails for versions below zero: the loop starts from \<open>maxVersion = -1\<close>
  and keeps only documents above it, so the only document of the host, of version \<open>-1\<close>,
  is not kept and the empty document is returned in its place.
\<close>

theorem negative_version_document_is_dropped:
  "getMetadataFor (host versionsResolver) ''/old.ts'' =
     Some [\<lparr>version = - 1, declarations = Some [(''x'', VNum 1)], exports = None\<rparr>] \<and>
   getModuleMetadata versionsResolver ''/old.ts'' newResolver =
     (Inr \<lparr>version = 3, declarations = Some [], exports = None\<rparr>,
      newResolver\<lparr>metadataCache :=
        [''/old.ts'' \<mapsto> \<lparr>version = 3, declarations = Some [], exports = None\<rparr>]\<rparr>)"
  by (simp add: versionsResolver_def versionsHost_def eval_defs)

lemma getModuleMetadata_mismatch:
  assumes "metadataCache s f = None" and "getMetadataFor (host r) f = Some mds"
    and "maxVersionLoop mds (- 1) None = Some md"
    and "version md \<noteq> SUPPORTED_SCHEMA_VERSION"
  shows "errorRecorder r \<Longrightarrow> getModuleMetadata r f s =
       (Inr md, s\<lparr>recorded := recorded s @ [(Error (errorMessage f (version md)), None)],
                  metadataCache := (metadataCache s)(f \<mapsto> md)\<rparr>)"
    and "\<not> errorRecorder r \<Longrightarrow>
       getModuleMetadata r f s = (Inl (Error (errorMessage f (version md))), s)"
  using assms
  by (simp_all add: getModuleMetadata_def loadModuleMetadata_def reportError_def Let_def)

lemma createSymbolsOf_registers_declarations:
  assumes c: "createSymbolsOf r n f s = Some (Inr u, s')"
    and nv: "f \<notin> resolvedFilePaths s"
    and gm: "fst (getModuleMetadata r f (s\<lparr>resolvedFilePaths := insert f (resolvedFilePaths s)\<rparr>))
               = Inr md"
    and d: "declarations md = Some decls"
  shows "\<forall>nm \<in> fst ` set decls. getStaticSymbol f nm [] \<in> fst ` set (resolvedSymbols s')"
proof -
  let ?s0 = "s\<lparr>resolvedFilePaths := insert f (resolvedFilePaths s)\<rparr>"
  from c obtain m where n: "n = Suc m" by (cases n) auto
  obtain sA where gm': "getModuleMetadata r f ?s0 = (Inr md, sA)"
    using gm by (cases "getModuleMetadata r f ?s0") auto
  obtain b sB where dl: "declarationsLoop r f decls (map fst decls) [] sA = (b, sB)"
    by (cases "declarationsLoop r f decls (map fst decls) [] sA") auto
  from c n nv gm' d dl obtain resolved where b: "b = Inr resolved"
    by (cases b) (auto simp: Let_def)
  from declarationsLoop_result[OF dl] b have
    syms: "map symbol resolved = map (\<lambda>nm. getStaticSymbol f nm []) (map fst decls)"
    by auto
  have "\<exists>resolved' sC. s' = registerAll resolved' sC \<and> set resolved \<subseteq> set resolved'"
  proof (cases "exports md")
    case None
    with c n nv gm' d dl b show ?thesis by (auto simp: Let_def)
  next
    case (Some es)
    with c n nv gm' d dl b obtain resolved' sC where
      loop: "moduleExportsLoop r m f es resolved sB = Some (Inr resolved', sC)" and
      s': "s' = registerAll resolved' sC"
      by (auto simp: Let_def split: option.splits prod.splits sum.splits)
    from walker_grows(2)[OF loop] have "set resolved \<subseteq> set resolved'" by auto
    with s' show ?thesis by blast
  qed
  then obtain resolved' sC where s': "s' = registerAll resolved' sC"
    and sub: "set resolved \<subseteq> set resolved'" by blast
  show ?thesis
  proof
    fix nm assume "nm \<in> fst ` set decls"
    then have "getStaticSymbol f nm [] \<in> set (map symbol resolved)"
      unfolding syms by auto
    with sub have "getStaticSymbol f nm [] \<in> symbol ` set resolved'" by auto
    with s' show "getStaticSymbol f nm [] \<in> fst ` set (resolvedSymbols s')"
      by (simp add: registerAll_fields)
  qed
qed

text \<open>
  Claim C4. Let the document kept for a file on a miss of the metadata cache have a
  version other than the supported one. With an error recorder, \<open>getModuleMetadata\<close>
  calls it once with the version mismatch and still returns the document, which it
  caches; in every state that holds the document in the cache it returns the document
  and reports nothing; the walker never removes the document from the cache; when
  \<open>getSymbolsOf\<close> returns handles for the file, the handles of all its declared names
  are among them; and it does return for a file of a finite set of files closed under the
  wildcard directives, at a depth above the number of files. Without an error recorder
  the mismatch is raised to the caller.
\<close>

theorem version_mismatch_is_reported_once:
  assumes "metadataCache s f = None" and "getMetadataFor (host r) f = Some mds"
    and "maxVersionLoop mds (- 1) None = Some md"
    and "version md \<noteq> SUPPORTED_SCHEMA_VERSION"
  shows "(errorRecorder r \<longrightarrow>
       getModuleMetadata r f s =
         (Inr md, s\<lparr>recorded := recorded s @ [(Error (errorMessage f (version md)), None)],
                    metadataCache := (metadataCache s)(f \<mapsto> md)\<rparr>) \<and>
       (\<forall>t. metadataCache t f = Some md \<longrightarrow> getModuleMetadata r f t = (Inr md, t)) \<and>
       (\<forall>t k g res t'. metadataCache t f = Some md \<and> getSymbolsOf r k g t = Some (res, t') \<longrightarrow>
          metadataCache t' f = Some md) \<and>
       (\<forall>k symbols s' decls.
          f \<notin> resolvedFilePaths s \<and> cacheInv s \<and> declarations md = Some decls \<and>
          getSymbolsOf r k f s = Some (Inr symbols, s') \<longrightarrow>
          (\<forall>nm \<in> fst ` set decls. getStaticSymbol f nm [] \<in> set symbols)) \<and>
       (\<forall>F k. finite F \<and> closedUnder r F \<and> f \<in> F \<and> cacheAgrees r s \<and> card F < k \<longrightarrow>
          getSymbolsOf r k f s \<noteq> None)) \<and>
     (\<not> errorRecorder r \<longrightarrow>
       getModuleMetadata r f s = (Inl (Error (errorMessage f (version md))), s))"
proof (intro conjI impI allI)
  assume "errorRecorder r"
  from getModuleMetadata_mismatch(1)[OF assms this]
  show "getModuleMetadata r f s =
         (Inr md, s\<lparr>recorded := recorded s @ [(Error (errorMessage f (version md)), None)],
                    metadataCache := (metadataCache s)(f \<mapsto> md)\<rparr>)" .
next
  fix t :: resolverState
  assume "metadataCache t f = Some md"
  then show "getModuleMetadata r f t = (Inr md, t)"
    by (simp add: getModuleMetadata_def)
next
  fix t t' :: resolverState and k g res
  assume "metadataCache t f = Some md \<and> getSymbolsOf r k g t = Some (res, t')"
  with walker_grows(3)[of r k g t res t'] show "metadataCache t' f = Some md"
    by (simp add: grows_def)
next
  fix k symbols s' decls
  assume rec: "errorRecorder r"
  assume a: "f \<notin> resolvedFilePaths s \<and> cacheInv s \<and> declarations md = Some decls \<and>
          getSymbolsOf r k f s = Some (Inr symbols, s')"
  let ?s0 = "s\<lparr>resolvedFilePaths := insert f (resolvedFilePaths s)\<rparr>"
  from getSymbolsOf_Inr[of r k f s symbols s'] a have
    c: "createSymbolsOf r k f s = Some (Inr (), s')" and
    sy: "symbols = collectSymbols r f s'" by auto
  have miss0: "metadataCache ?s0 f = None" using assms(1) by simp
  from getModuleMetadata_mismatch(1)[OF miss0 assms(2,3,4) rec]
  have gm: "fst (getModuleMetadata r f ?s0) = Inr md" by simp
  from createSymbolsOf_registers_declarations[OF c _ gm] a
  have keys: "\<forall>nm \<in> fst ` set decls.
                getStaticSymbol f nm [] \<in> fst ` set (resolvedSymbols s')" by blast
  from walker_grows(1)[OF c] a have inv: "cacheInv s'" by (simp add: grows_def)
  show "\<forall>nm \<in> fst ` set decls. getStaticSymbol f nm [] \<in> set symbols"
  proof
    fix nm assume "nm \<in> fst ` set decls"
    with keys obtain v where kv: "(getStaticSymbol f nm [], v) \<in> set (resolvedSymbols s')"
      by auto
    with inv have sv: "symbol v = getStaticSymbol f nm []" by (auto simp: cacheInv_def)
    then have "filePath (symbol v) = f" by (simp add: getStaticSymbol_def)
    with kv sv have "getStaticSymbol f nm [] \<in>
        {symbol v |k v. (k, v) \<in> set (resolvedSymbols s') \<and> filePath (symbol v) = f}"
      by (metis (mono_tags, lifting) mem_Collect_eq)
    then show "getStaticSymbol f nm [] \<in> set symbols"
      unfolding sy collectSymbols_props(2) by blast
  qed
next
  fix F k
  assume "finite F \<and> closedUnder r F \<and> f \<in> F \<and> cacheAgrees r s \<and> card F < k"
  then show "getSymbolsOf r k f s \<noteq> None"
    using getSymbolsOf_returns(2)[of F r f s k] by blast
next
  assume "\<not> errorRecorder r"
  from getModuleMetadata_mismatch(2)[OF assms this]
  show "getModuleMetadata r f s = (Inl (Error (errorMessage f (version md))), s)" .
qed


theorem version_mismatch_is_reported_once_witness:
  "metadataCache newResolver ''/new.ts'' = None \<and>
   getMetadataFor (host versionsResolver) ''/new.ts'' =
     Some [\<lparr>version = 99, declarations = Some [(''x'', VNum 1), (''y'', VStr ''s'')],
            exports = None\<rparr>] \<and>
   errorRecorder versionsResolver \<and>
   getModuleMetadata versionsResolver ''/new.ts'' newResolver =
     (Inr \<lparr>version = 99, declarations = Some [(''x'', VNum 1), (''y'', VStr ''s'')],
           exports = None\<rparr>,
      newResolver\<lparr>recorded := recorded newResolver @
          [(Error (errorMessage ''/new.ts'' 99), None)],
        metadataCache := (metadataCache newResolver)(''/new.ts'' \<mapsto>
          \<lparr>version = 99, declarations = Some [(''x'', VNum 1), (''y'', VStr ''s'')],
           exports = None\<rparr>)\<rparr>) \<and>
   errorMessage ''/new.ts'' 99 =
     ''Metadata version mismatch for module /new.ts, found version 99, expected 3'' \<and>
   finite {''/new.ts''} \<and> closedUnder versionsResolver {''/new.ts''} \<and>
   cacheAgrees versionsResolver newResolver \<and> card {''/new.ts''} < (2::nat) \<and>
   getSymbolsOf versionsResolver 2 ''/new.ts'' newResolver \<noteq> None \<and>
   fst (the (getSymbolsOf versionsResolver 1 ''/new.ts'' newResolver)) =
     Inr [getStaticSymbol ''/new.ts'' ''x'' [], getStaticSymbol ''/new.ts'' ''y'' []] \<and>
   recorded (snd (the (getSymbolsOf versionsResolver 1 ''/new.ts'' newResolver))) =
     [(Error (errorMessage ''/new.ts'' 99), None)] \<and>
   recorded (snd (the (getSymbolsOf versionsResolver 1 ''/new.ts''
      (snd (the (getSymbolsOf versionsResolver 1 ''/new.ts'' newResolver)))))) =
     [(Error (errorMessage ''/new.ts'' 99), None)]"
proof -
  let ?md = "\<lparr>version = 99, declarations = Some [(''x'', VNum 1), (''y'', VStr ''s'')],
            exports = None\<rparr>"
  have miss: "metadataCache newResolver ''/new.ts'' = None" by (simp add: newResolver_def)
  have docs: "getMetadataFor (host versionsResolver) ''/new.ts'' = Some [?md]"
    by (simp add: versionsResolver_def versionsHost_def)
  have sel: "maxVersionLoop [?md] (- 1) None = Some ?md" by simp
  have ne: "version ?md \<noteq> SUPPORTED_SCHEMA_VERSION"
    by (simp add: SUPPORTED_SCHEMA_VERSION_def)
  have rec: "errorRecorder versionsResolver" by (simp add: versionsResolver_def)
  note inst = version_mismatch_is_reported_once[OF miss docs sel ne]
  from inst rec
  have gm: "getModuleMetadata versionsResolver ''/new.ts'' newResolver =
     (Inr ?md,
      newResolver\<lparr>recorded := recorded newResolver @
          [(Error (errorMessage ''/new.ts'' 99), None)],
        metadataCache := (metadataCache newResolver)(''/new.ts'' \<mapsto> ?md)\<rparr>)"
    by simp
  have fin: "finite {''/new.ts''}" and card: "card {''/new.ts''} < (2::nat)" by simp_all
  have closed: "closedUnder versionsResolver {''/new.ts''}"
    by (simp add: closedUnder_def wildcardsInto_def loadModuleMetadata_def
        versionsResolver_def versionsHost_def)
  note agrees = newResolver_invariants(2)[of versionsResolver]
  from inst rec fin closed agrees card
  have ret: "getSymbolsOf versionsResolver 2 ''/new.ts'' newResolver \<noteq> None" by blast
  have msg: "errorMessage ''/new.ts'' 99 =
     ''Metadata version mismatch for module /new.ts, found version 99, expected 3''"
    by code_simp
  have syms: "fst (the (getSymbolsOf versionsResolver 1 ''/new.ts'' newResolver)) =
     Inr [getStaticSymbol ''/new.ts'' ''x'' [], getStaticSymbol ''/new.ts'' ''y'' []]"
    by (simp add: versionsResolver_def versionsHost_def eval_defs)
  have once: "recorded (snd (the (getSymbolsOf versionsResolver 1 ''/new.ts'' newResolver))) =
     [(Error (errorMessage ''/new.ts'' 99), None)]"
    by (simp add: versionsResolver_def versionsHost_def eval_defs)
  have again: "recorded (snd (the (getSymbolsOf versionsResolver 1 ''/new.ts''
      (snd (the (getSymbolsOf versionsResolver 1 ''/new.ts'' newResolver)))))) =
     [(Error (errorMessage ''/new.ts'' 99), None)]"
    by (simp add: versionsResolver_def versionsHost_def eval_defs)
  from miss docs rec gm msg fin closed agrees card ret syms once again
  show ?thesis by blast
qed

end
